theory Spec2Isabelle
  imports Complex_Main "HOL-Library.AList"
begin

section \<open>The square grid of \<open>src/grids/SqrGrid.js\<close>\<close>

text \<open>
  Every JavaScript number is an IEEE 754 double.  Cell coordinates and counters are
  integers that a double holds exactly, modelled as \<open>int\<close>; heights and sizes that the
  code only stores and copies are the \<open>real\<close> that the double denotes.  Where the code
  computes with doubles (the cell size doubled, the position of a cell, the quotient
  that \<open>pixelToCell\<close> rounds), the result is a \<open>number\<close>: the product or quotient
  rounded to the nearest double, or an infinity, or \<open>NaN\<close>; a stored \<open>int\<close> or \<open>real\<close>
  that enters such a computation is read as the double that holds it (\<open>fl\<close> of it,
  which is the value itself when it is a double).  A thrown exception is the
  \<open>Inl\<close> of a sum.
\<close>

subsection \<open>Numbers\<close>

text \<open>
  A double is a finite value (the real it denotes), an infinity, or \<open>NaN\<close>.  The sign of
  an infinity and the sign of zero are not kept: multiplication, division and
  \<open>Math.round\<close>, the only operations the code applies, give a finite value, an infinity or
  \<open>NaN\<close> whatever these signs are.
\<close>

datatype number = Fin real | Infinite | NaN

text \<open>
  \<open>ilog2 n\<close> is the position of the leading bit of \<open>n\<close>, and \<open>expo a\<close> is the binary
  exponent of \<open>a\<close>: the \<open>e\<close> with \<open>2\<^sup>e \<le> \<bar>a\<bar> < 2\<^sup>e\<^sup>+\<^sup>1\<close>.
\<close>

function ilog2 :: "int \<Rightarrow> nat" where
  "ilog2 n = (if n < 2 then 0 else Suc (ilog2 (n div 2)))"
  by pat_completeness auto
termination
  by (relation "measure nat") auto

declare ilog2.simps [simp del]

definition expo :: "real \<Rightarrow> int" where
  "expo a =
     (if 1 \<le> \<bar>a\<bar> then int (ilog2 \<lfloor>\<bar>a\<bar>\<rfloor>)
      else - (int (ilog2 (\<lceil>1 / \<bar>a\<bar>\<rceil> - 1)) + 1))"

text \<open>Rounding to the nearest integer, a tie to the even one.\<close>

definition round_even :: "real \<Rightarrow> int" where
  "round_even a =
     (let f = \<lfloor>a\<rfloor>; d = a - of_int f
      in if d < 1 / 2 then f else if 1 / 2 < d then f + 1 else if even f then f else f + 1)"

text \<open>
  \<open>fl a\<close> is the double that an operation with exact result \<open>a\<close> returns (binary64,
  round to nearest, ties to even): 53 significant bits at the exponent of \<open>a\<close>, the
  exponent being at least \<open>-1022\<close> (below it the doubles are subnormal, all multiples of
  \<open>2\<^sup>-\<^sup>1\<^sup>0\<^sup>7\<^sup>4\<close>), and an infinity when the rounded value reaches \<open>2\<^sup>1\<^sup>0\<^sup>2\<^sup>4\<close>.
\<close>

definition fl :: "real \<Rightarrow> number" where
  "fl a =
     (if a = 0 then Fin 0
      else let e = max (expo a) (- 1022);
               u = 2 powi (e - 52);
               b = of_int (round_even (a / u)) * u
           in if 2 powi 1024 \<le> \<bar>b\<bar> then Infinite else Fin b)"

text \<open>The operators \<open>*\<close> and \<open>/\<close> on doubles.\<close>

fun number_mul :: "number \<Rightarrow> number \<Rightarrow> number" where
  "number_mul (Fin a) (Fin b) = fl (a * b)"
| "number_mul (Fin a) Infinite = (if a = 0 then NaN else Infinite)"
| "number_mul Infinite (Fin b) = (if b = 0 then NaN else Infinite)"
| "number_mul Infinite Infinite = Infinite"
| "number_mul NaN b = NaN"
| "number_mul a NaN = NaN"

fun number_div :: "number \<Rightarrow> number \<Rightarrow> number" where
  "number_div (Fin a) (Fin b) =
     (if b = 0 then (if a = 0 then NaN else Infinite) else fl (a / b))"
| "number_div (Fin a) Infinite = Fin 0"
| "number_div Infinite (Fin b) = Infinite"
| "number_div Infinite Infinite = NaN"
| "number_div NaN b = NaN"
| "number_div a NaN = NaN"

text \<open>
  \<open>Math.round\<close> gives the nearest integer, a tie going towards \<open>+\<infinity>\<close>, which is
  \<^const>\<open>round\<close>; it hands back an infinity or \<open>NaN\<close> as it is, which is \<open>None\<close>: no
  integer.
\<close>

fun Math_round :: "number \<Rightarrow> int option" where
  "Math_round (Fin a) = Some (round a)"
| "Math_round Infinite = None"
| "Math_round NaN = None"

subsection \<open>Cells\<close>

text \<open>
  The fields that \<open>toJSON\<close> writes for one cell, and that \<open>fromJSON\<close> reads back.
\<close>

record 'u cellData =
  q :: int
  r :: int
  s :: int
  h :: real
  walkable :: bool
  userData :: 'u

text \<open>
  Modelled from the spec: the class \<open>vg.Cell\<close> (constructor, \<open>set\<close>, \<open>copy\<close>, \<open>add\<close>)
  is not among the source files.  A cell is the persisted fields together with the
  pathfinder's scratch fields, which \<open>clearPath\<close> names \<open>_calcCost\<close>, \<open>_priority\<close>,
  \<open>_parent\<close> and \<open>_visited\<close>; the parent is a reference to another cell, held here as that
  cell's hash key.
\<close>

record 'u Cell = "'u cellData" +
  calcCost :: real
  priority :: real
  parent :: "string option"
  visited :: bool

text \<open>
  Modelled from the spec: what the constructor gives to an argument that is left out.
  The spec speaks of a default height without giving its value, and says nothing of
  the other defaults, so all of them are parameters.
\<close>

record 'u fresh =
  fresh_q :: int
  fresh_r :: int
  fresh_s :: int
  fresh_h :: real
  fresh_walkable :: bool
  fresh_userData :: 'u

text \<open>
  Modelled from the spec: \<open>new vg.Cell(q, r, s)\<close>, an argument left out being \<open>None\<close>.
  The scratch fields start in their zero state (cost 0, priority 0, no parent, not
  visited).
\<close>

definition new_Cell :: "'u fresh \<Rightarrow> int option \<Rightarrow> int option \<Rightarrow> int option \<Rightarrow> 'u Cell" where
  "new_Cell d qa ra sa =
     \<lparr>q = (case qa of None \<Rightarrow> fresh_q d | Some v \<Rightarrow> v),
      r = (case ra of None \<Rightarrow> fresh_r d | Some v \<Rightarrow> v),
      s = (case sa of None \<Rightarrow> fresh_s d | Some v \<Rightarrow> v),
      h = fresh_h d, walkable = fresh_walkable d, userData = fresh_userData d,
      calcCost = 0, priority = 0, parent = None, visited = False\<rparr>"

text \<open>
  Modelled from the spec: \<open>dst.copy(src)\<close> takes over the coordinates, the height, the
  walkable flag and the user data of \<open>src\<close>, and leaves the scratch fields of \<open>dst\<close> alone.
\<close>

definition Cell_copy :: "'u Cell \<Rightarrow> ('u, 'z) cellData_scheme \<Rightarrow> 'u Cell" where
  "Cell_copy dst src =
     dst\<lparr>q := q src, r := r src, s := s src, h := h src,
         walkable := walkable src, userData := userData src\<rparr>"


text \<open>The record that \<open>toJSON\<close> pushes for a cell: its six persisted fields.\<close>

definition persisted :: "'u Cell \<Rightarrow> 'u cellData" where
  "persisted c =
     \<lparr>q = q c, r = r c, s = s c, h = h c, walkable = walkable c, userData = userData c\<rparr>"

subsection \<open>Hash keys\<close>

text \<open>
  \<open>cell.q + this._hashDelimeter + cell.r\<close> concatenates the decimal text of two numbers
  around the delimiter.  JavaScript writes an integer as its decimal digits without
  leading zeros, with a minus sign in front of a negative one (up to a magnitude of
  \<open>10\<^sup>2\<^sup>1\<close>, where it changes to exponent notation; the model writes every integer in
  full).
\<close>

definition digit_char :: "nat \<Rightarrow> char" where
  "digit_char d = ''0123456789'' ! d"

fun nat_to_string :: "nat \<Rightarrow> string" where
  "nat_to_string n =
     (if n < 10 then [digit_char n]
      else nat_to_string (n div 10) @ [digit_char (n mod 10)])"

declare nat_to_string.simps [simp del]

definition number_to_string :: "int \<Rightarrow> string" where
  "number_to_string i =
     (if i < 0 then CHR ''-'' # nat_to_string (nat (- i)) else nat_to_string (nat i))"

definition hashDelimeter :: string where
  "hashDelimeter = ''.''"

definition cellToHash :: "('u, 'z) cellData_scheme \<Rightarrow> string" where
  "cellToHash cell = number_to_string (q cell) @ hashDelimeter @ number_to_string (r cell)"

subsection \<open>The grid\<close>

text \<open>
  \<open>this.cells\<close> is a JavaScript object used as a hash from key to cell.  Its keys all
  contain the delimiter, so none of them is an array index and none names a property
  of \<open>Object.prototype\<close>: \<open>for (k in this.cells)\<close> visits them in the order in which they
  were inserted, and \<open>this.cells[k]\<close> is truthy exactly when \<open>k\<close> is a key.  The object
  is therefore an association list in insertion order: an assignment to a new key
  appends, \<open>delete\<close> drops the entry.

  The geometry, shape and cache fields belong to the renderer and are left out, and so
  are the scratch objects \<open>_cel\<close>, \<open>_vec3\<close> and \<open>_list\<close>, which every method overwrites
  before it reads them.
\<close>

record ('u, 'e) SqrGrid =
  size_grid :: real
  cellSize :: real
  cells :: "(string \<times> 'u Cell) list"
  numCells :: int
  extrudeSettings :: "'e option"
  autogenerated :: bool
  fullCellSize :: number

text \<open>The constructor; its argument is \<open>config.cellSize\<close>, \<open>None\<close> when undefined.\<close>

definition SqrGrid :: "real option \<Rightarrow> ('u, 'e) SqrGrid" where
  "SqrGrid config_cellSize =
     (let cs = (case config_cellSize of None \<Rightarrow> 10 | Some v \<Rightarrow> v) in
      \<lparr>size_grid = 5, cellSize = cs, cells = [], numCells = 0,
       extrudeSettings = None, autogenerated = False,
       fullCellSize = number_mul (fl cs) (Fin 2)\<rparr>)"

text \<open>
  \<open>add\<close> returns the cell, or nothing when the key is taken; the pair is the returned
  value and the grid afterwards.
\<close>

definition add :: "('u, 'e) SqrGrid \<Rightarrow> 'u Cell \<Rightarrow> 'u Cell option \<times> ('u, 'e) SqrGrid" where
  "add g cell =
     (let key = cellToHash cell in
      if map_of (cells g) key \<noteq> None then (None, g)
      else (Some cell,
            g\<lparr>cells := AList.update key cell (cells g), numCells := numCells g + 1\<rparr>))"

definition remove :: "('u, 'e) SqrGrid \<Rightarrow> 'u Cell \<Rightarrow> ('u, 'e) SqrGrid" where
  "remove g cell =
     (let key = cellToHash cell in
      if map_of (cells g) key \<noteq> None
      then g\<lparr>cells := AList.delete key (cells g), numCells := numCells g - 1\<rparr>
      else g)"

text \<open>
  \<open>traverse(cb)\<close> calls \<open>cb\<close> on every stored cell, in enumeration order.  What the
  callback does to the caller's state is the function \<open>cb\<close> on a state of type \<open>'st\<close>.
\<close>

definition traverse :: "('u, 'e) SqrGrid \<Rightarrow> ('st \<Rightarrow> 'u Cell \<Rightarrow> 'st) \<Rightarrow> 'st \<Rightarrow> 'st" where
  "traverse g cb st = foldl (\<lambda>acc kc. cb acc (snd kc)) st (cells g)"

text \<open>A mutation of the store, and a run of mutations from left to right.\<close>

datatype 'u mutation = Insert "'u Cell" | Remove "'u Cell"

fun mutate :: "('u, 'e) SqrGrid \<Rightarrow> 'u mutation \<Rightarrow> ('u, 'e) SqrGrid" where
  "mutate g (Insert c) = snd (add g c)"
| "mutate g (Remove c) = remove g c"

definition mutations :: "('u, 'e) SqrGrid \<Rightarrow> 'u mutation list \<Rightarrow> ('u, 'e) SqrGrid" where
  "mutations g ms = foldl mutate g ms"

subsection \<open>Conversion between cells and positions\<close>

text \<open>A position; each component is a double.\<close>

record Vector3 =
  x :: number
  y :: number
  z :: number

text \<open>
  \<open>cellToPixel\<close>: the coordinates and the height of the cell are read as the doubles
  that hold them, and each product is rounded.
\<close>

definition cellToPixel :: "('u, 'e) SqrGrid \<Rightarrow> 'u Cell \<Rightarrow> Vector3" where
  "cellToPixel g cell =
     \<lparr>x = number_mul (fl (of_int (q cell))) (fullCellSize g),
      y = fl (h cell),
      z = number_mul (fl (of_int (r cell))) (fullCellSize g)\<rparr>"

text \<open>
  \<open>pixelToCell\<close> returns the scratch cell after \<open>set(q, r, 0)\<close>; the model returns the
  \<open>q\<close> and the \<open>r\<close> it is given, \<open>None\<close> standing for an infinity or \<open>NaN\<close>.
\<close>

definition pixelToCell :: "('u, 'e) SqrGrid \<Rightarrow> Vector3 \<Rightarrow> int option \<times> int option" where
  "pixelToCell g pos =
     (let qa = Math_round (number_div (x pos) (fullCellSize g));
          ra = Math_round (number_div (z pos) (fullCellSize g))
      in (qa, ra))"

subsection \<open>Neighbours\<close>





subsection \<open>Random cell\<close>

datatype js_error = TypeError

text \<open>
  The loop of \<open>getRandomCell\<close> over the entries still to visit, with the counter \<open>i\<close>, the
  index \<open>xi\<close> that was drawn, and what \<open>this.cells[c]\<close> is for the current value of the
  loop variable \<open>c\<close>: nothing before the first entry, since \<open>undefined\<close> is not a key.
\<close>

fun getRandomCell_loop ::
  "(string \<times> 'u Cell) list \<Rightarrow> int \<Rightarrow> int \<Rightarrow> 'u Cell option \<Rightarrow> 'u Cell option" where
  "getRandomCell_loop [] i xi at_c = at_c"
| "getRandomCell_loop (kc # rest) i xi at_c =
     (if i = xi then Some (snd kc) else getRandomCell_loop rest (i + 1) xi (Some (snd kc)))"

text \<open>
  \<open>vg.Tools.randomInt\<close> is not among the source files: the index it returns for
  \<open>(0, this.numCells)\<close> is the argument \<open>xi\<close>.  The method has no \<open>throw\<close>; it returns a
  cell or \<open>undefined\<close>, which is \<open>Inr None\<close>.
\<close>

definition getRandomCell :: "('u, 'e) SqrGrid \<Rightarrow> int \<Rightarrow> js_error + 'u Cell option" where
  "getRandomCell g xi = Inr (getRandomCell_loop (cells g) 0 xi None)"

subsection \<open>Generation\<close>

function generate_y ::
  "('u, 'e) SqrGrid \<Rightarrow> 'u fresh \<Rightarrow> int \<Rightarrow> int \<Rightarrow> int \<Rightarrow> ('u, 'e) SqrGrid" where
  "generate_y g d half xi yi =
     (if yi < half
      then generate_y (snd (add g (new_Cell d (Some xi) (Some (yi + 1)) None))) d half xi (yi + 1)
      else g)"
  by pat_completeness auto
termination
  by (relation "measure (\<lambda>(g, d, half, xi, yi). nat (half - yi))") auto

function generate_x ::
  "('u, 'e) SqrGrid \<Rightarrow> 'u fresh \<Rightarrow> int \<Rightarrow> int \<Rightarrow> ('u, 'e) SqrGrid" where
  "generate_x g d half xi =
     (if xi < half then generate_x (generate_y g d half xi (- half)) d half (xi + 1) else g)"
  by pat_completeness auto
termination
  by (relation "measure (\<lambda>(g, d, half, xi). nat (half - xi))") auto

declare generate_y.simps [simp del] generate_x.simps [simp del]

text \<open>The argument is \<open>config.size\<close>, \<open>None\<close> when undefined.\<close>

definition generate :: "('u, 'e) SqrGrid \<Rightarrow> 'u fresh \<Rightarrow> real option \<Rightarrow> ('u, 'e) SqrGrid" where
  "generate g d config_size =
     (let g1 = g\<lparr>size_grid := (case config_size of None \<Rightarrow> size_grid g | Some v \<Rightarrow> v)\<rparr>;
          half = \<lceil>size_grid g1 / 2\<rceil>
      in generate_x g1 d half (- half))"

subsection \<open>Loading and saving\<close>

text \<open>
  The parsed JSON object.  \<open>json.cells\<close> is \<open>None\<close> when the field is missing, in which
  case reading \<open>cells.length\<close> throws a \<open>TypeError\<close>.
\<close>

record ('u, 'e) json =
  json_size :: real
  json_cellSize :: real
  json_extrudeSettings :: "'e option"
  json_autogenerated :: bool
  json_cells :: "'u cellData list option"

fun fromJSON_loop ::
  "('u, 'e) SqrGrid \<Rightarrow> 'u fresh \<Rightarrow> 'u cellData list \<Rightarrow> ('u, 'e) SqrGrid" where
  "fromJSON_loop g d [] = g"
| "fromJSON_loop g d (rec # recs) =
     fromJSON_loop (snd (add g (Cell_copy (new_Cell d None None None) rec))) d recs"

text \<open>
  \<open>fromJSON\<close> changes the grid in place, so the grid is part of the result also when
  the method throws: the first component is \<open>Inl\<close> of the exception or \<open>Inr ()\<close> for a
  normal return, the second is the grid afterwards.
\<close>

definition fromJSON ::
  "('u, 'e) SqrGrid \<Rightarrow> 'u fresh \<Rightarrow> ('u, 'e) json \<Rightarrow> (js_error + unit) \<times> ('u, 'e) SqrGrid" where
  "fromJSON g d js =
     (let g1 = g\<lparr>cells := [], numCells := 0,
                 size_grid := json_size js,
                 cellSize := json_cellSize js,
                 fullCellSize := number_mul (fl (json_cellSize js)) (Fin 2),
                 extrudeSettings := json_extrudeSettings js,
                 autogenerated := json_autogenerated js\<rparr>
      in case json_cells js of
           None \<Rightarrow> (Inl TypeError, g1)
         | Some recs \<Rightarrow> (Inr (), fromJSON_loop g1 d recs))"

definition toJSON :: "('u, 'e) SqrGrid \<Rightarrow> ('u, 'e) json" where
  "toJSON g =
     \<lparr>json_size = size_grid g,
      json_cellSize = cellSize g,
      json_extrudeSettings = extrudeSettings g,
      json_autogenerated = autogenerated g,
      json_cells = Some (map (\<lambda>kc. persisted (snd kc)) (cells g))\<rparr>"

subsection \<open>Well-formed grids\<close>

text \<open>
  What every grid built by the constructor and changed by the methods above satisfies:
  keys are not repeated, every cell is stored under its own hash, and the counter is the
  number of entries.
\<close>

definition grid_inv :: "('u, 'e) SqrGrid \<Rightarrow> bool" where
  "grid_inv g \<longleftrightarrow>
     distinct (map fst (cells g)) \<and>
     list_all (\<lambda>kc. fst kc = cellToHash (snd kc)) (cells g) \<and>
     numCells g = int (length (cells g))"

text \<open>The characters that the decimal text of a natural number is made of.\<close>

definition is_digit :: "char \<Rightarrow> bool" where
  "is_digit c \<longleftrightarrow> c \<in> set ''0123456789''"

subsection \<open>Example cells\<close>

text \<open>A cell at \<open>(qa, ra)\<close> of height \<open>ha\<close>, without user data, for concrete instances.\<close>

definition cell_at :: "int \<Rightarrow> int \<Rightarrow> real \<Rightarrow> unit Cell" where
  "cell_at qa ra ha =
     \<lparr>q = qa, r = ra, s = 0, h = ha, walkable = True, userData = (),
      calcCost = 0, priority = 0, parent = None, visited = False\<rparr>"

text \<open>The fully populated 3 by 3 grid centred at the origin, built by nine insertions.\<close>

definition grid3x3 :: "(unit, unit) SqrGrid" where
  "grid3x3 = mutations (SqrGrid None)
     (map Insert [cell_at (- 1) (- 1) 1, cell_at (- 1) 0 1, cell_at (- 1) 1 1,
                  cell_at 0 (- 1) 1, cell_at 0 0 1, cell_at 0 1 1,
                  cell_at 1 (- 1) 1, cell_at 1 0 1, cell_at 1 1 1])"

subsection \<open>The neighbour query as the spec words it\<close>





text \<open>Whether a call ended in an exception.\<close>

definition raises :: "js_error + 'a \<Rightarrow> bool" where
  "raises res = (case res of Inl e \<Rightarrow> True | Inr v \<Rightarrow> False)"

subsection \<open>Loops as lists of cells\<close>

text \<open>
  The loops of \<open>generate\<close> and \<open>fromJSON\<close> call \<open>add\<close> on one cell after the other.
  The definitions below name what such a run does, for the proofs: the run itself, the
  \<open>(q, r)\<close> of a cell, the first cell of each \<open>(q, r)\<close> in a list, and the cells of a list
  that a run really stores.
\<close>

definition add_each :: "('u, 'e) SqrGrid \<Rightarrow> 'u Cell list \<Rightarrow> ('u, 'e) SqrGrid" where
  "add_each g cs = foldl (\<lambda>g c. snd (add g c)) g cs"

definition coords :: "('u, 'z) cellData_scheme \<Rightarrow> int \<times> int" where
  "coords c = (q c, r c)"

fun first_by_coords :: "('u, 'z) cellData_scheme list \<Rightarrow> ('u, 'z) cellData_scheme list" where
  "first_by_coords [] = []"
| "first_by_coords (c # cs) = c # first_by_coords (filter (\<lambda>a. coords a \<noteq> coords c) cs)"

definition fresh_cells :: "('u, 'e) SqrGrid \<Rightarrow> 'u Cell list \<Rightarrow> 'u Cell list" where
  "fresh_cells g cs = first_by_coords (filter (\<lambda>c. map_of (cells g) (cellToHash c) = None) cs)"

text \<open>The cells that the two loops of \<open>generate\<close> construct from column \<open>xi\<close> on, in order.\<close>

definition generated_cells :: "'u fresh \<Rightarrow> int \<Rightarrow> int \<Rightarrow> 'u Cell list" where
  "generated_cells d half xi =
     concat (map (\<lambda>xj. map (\<lambda>yj. new_Cell d (Some xj) (Some (yj + 1)) None) [- half..half - 1])
                 [xi..half - 1])"

subsection \<open>Example grids and records\<close>

definition fresh0 :: "unit fresh" where
  "fresh0 = \<lparr>fresh_q = 0, fresh_r = 0, fresh_s = 0, fresh_h = 1, fresh_walkable = True,
            fresh_userData = ()\<rparr>"

text \<open>The grid that \<open>generate({size: 4})\<close> builds on a new grid.\<close>

definition grid4x4 :: "(unit, unit) SqrGrid" where
  "grid4x4 = generate (SqrGrid None) fresh0 (Some 4)"

definition record_at :: "int \<Rightarrow> int \<Rightarrow> real \<Rightarrow> unit cellData" where
  "record_at qa ra ha = \<lparr>q = qa, r = ra, s = 0, h = ha, walkable = True, userData = ()\<rparr>"

text \<open>
  A grid of cell size 7 with two cells that differ from a fresh cell in every persisted
  field and whose scratch fields are in use.
\<close>

definition lava_cell :: "string Cell" where
  "lava_cell =
     \<lparr>q = 0, r = 0, s = 3, h = 5, walkable = False, userData = ''lava'',
      calcCost = 2, priority = 1, parent = Some ''2.-1'', visited = True\<rparr>"

definition door_cell :: "string Cell" where
  "door_cell =
     \<lparr>q = 2, r = - 1, s = - 1, h = 1 / 2, walkable = True, userData = ''door'',
      calcCost = 0, priority = 4, parent = None, visited = True\<rparr>"

definition grid_mixed :: "(string, unit) SqrGrid" where
  "grid_mixed = mutations (SqrGrid (Some 7)) [Insert lava_cell, Insert door_cell]"

definition fresh_plain :: "string fresh" where
  "fresh_plain = \<lparr>fresh_q = 0, fresh_r = 0, fresh_s = 0, fresh_h = 1, fresh_walkable = True,
                  fresh_userData = ''none''\<rparr>"

text \<open>A record with a negative cell size and the pair \<open>(0, 0)\<close> twice.\<close>

definition json_duplicates :: "(unit, unit) json" where
  "json_duplicates =
     \<lparr>json_size = 1, json_cellSize = - 4, json_extrudeSettings = None,
      json_autogenerated = False,
      json_cells = Some [record_at 0 0 5, record_at 0 0 9]\<rparr>"

text \<open>A record without its \<open>cells\<close> field.\<close>

definition json_no_cells :: "(unit, unit) json" where
  "json_no_cells =
     \<lparr>json_size = 1, json_cellSize = 10, json_extrudeSettings = None,
      json_autogenerated = False, json_cells = None\<rparr>"

section \<open>Properties\<close>

subsection \<open>Hash keys are decimal text\<close>

lemma lt10_cases: "d < 10 \<Longrightarrow> d \<in> {0,1,2,3,4,5,6,7,8,9::nat}"
  by auto

lemma digit_char_inj: "a < 10 \<Longrightarrow> b < 10 \<Longrightarrow> digit_char a = digit_char b \<longleftrightarrow> a = b"
  using lt10_cases[of a] lt10_cases[of b] by (auto simp: digit_char_def)

lemma digit_char_is_digit: "d < 10 \<Longrightarrow> is_digit (digit_char d)"
  using lt10_cases[of d] by (auto simp: is_digit_def digit_char_def)

lemma nat_to_string_nonempty: "nat_to_string n \<noteq> []"
  by (subst nat_to_string.simps) simp

lemma nat_to_string_digits: "c \<in> set (nat_to_string n) \<Longrightarrow> is_digit c"
proof (induction n rule: nat_to_string.induct)
  case (1 n)
  then show ?case
    by (subst (asm) nat_to_string.simps) (auto simp: digit_char_is_digit split: if_splits)
qed

lemma nat_to_string_inj: "nat_to_string a = nat_to_string b \<Longrightarrow> a = b"
proof (induction a arbitrary: b rule: nat_to_string.induct)
  case (1 n)
  show ?case
  proof (cases "n < 10")
    case True
    note n = this
    show ?thesis
    proof (cases "b < 10")
      case True
      with n "1.prems" show ?thesis
        by (simp add: nat_to_string.simps[of n] nat_to_string.simps[of b] digit_char_inj)
    next
      case False
      with n "1.prems" nat_to_string_nonempty[of "b div 10"] show ?thesis
        by (simp add: nat_to_string.simps[of n] nat_to_string.simps[of b])
    qed
  next
    case False
    note n = this
    show ?thesis
    proof (cases "b < 10")
      case True
      with n "1.prems" nat_to_string_nonempty[of "n div 10"] show ?thesis
        by (simp add: nat_to_string.simps[of n] nat_to_string.simps[of b])
    next
      case False
      with n "1.prems" have e: "nat_to_string (n div 10) = nat_to_string (b div 10)"
        and d: "digit_char (n mod 10) = digit_char (b mod 10)"
        by (simp_all add: nat_to_string.simps[of n] nat_to_string.simps[of b])
      from "1.IH"[OF n e] have "n div 10 = b div 10" .
      moreover from d have "n mod 10 = b mod 10" by (simp add: digit_char_inj)
      ultimately show ?thesis by (metis div_mult_mod_eq)
    qed
  qed
qed

lemma minus_not_digit: "\<not> is_digit CHR ''-''"
  by (simp add: is_digit_def)

lemma dot_not_digit: "\<not> is_digit CHR ''.''"
  by (simp add: is_digit_def)

lemma hd_nat_to_string_digit: "is_digit (hd (nat_to_string n))"
  using nat_to_string_nonempty[of n] nat_to_string_digits[of "hd (nat_to_string n)" n]
  by simp

lemma number_to_string_inj: "number_to_string a = number_to_string b \<Longrightarrow> a = b"
proof -
  assume e: "number_to_string a = number_to_string b"
  have neg: "nat_to_string m \<noteq> CHR ''-'' # t" for m t
    using hd_nat_to_string_digit[of m] minus_not_digit by (cases "nat_to_string m") auto
  show ?thesis
  proof (cases "a < 0")
    case True
    note a = this
    show ?thesis
    proof (cases "b < 0")
      case True
      with a e have "nat (- a) = nat (- b)"
        by (simp add: number_to_string_def nat_to_string_inj)
      with a True show ?thesis by simp
    next
      case False
      with a e neg[of "nat b" "nat_to_string (nat (- a))"] show ?thesis
        by (auto simp: number_to_string_def)
    qed
  next
    case False
    note a = this
    show ?thesis
    proof (cases "b < 0")
      case True
      with a e neg[of "nat a" "nat_to_string (nat (- b))"] show ?thesis
        by (auto simp: number_to_string_def)
    next
      case False
      with a e have "nat a = nat b"
        by (simp add: number_to_string_def nat_to_string_inj)
      with a False show ?thesis by simp
    qed
  qed
qed

lemma number_to_string_no_dot: "CHR ''.'' \<notin> set (number_to_string i)"
  using nat_to_string_digits[of "CHR ''.''"] dot_not_digit
  by (auto simp: number_to_string_def)

lemma split_at_delimiter:
  "c \<notin> set a \<Longrightarrow> c \<notin> set a' \<Longrightarrow> a @ c # b = a' @ c # b' \<Longrightarrow> a = a' \<and> b = b'"
proof (induction a arbitrary: a')
  case Nil
  then show ?case by (cases a') auto
next
  case (Cons x xs)
  then show ?case by (cases a') auto
qed

lemma cellToHash_eq_iff: "cellToHash c1 = cellToHash c2 \<longleftrightarrow> q c1 = q c2 \<and> r c1 = r c2"
proof
  assume "cellToHash c1 = cellToHash c2"
  then have "number_to_string (q c1) @ CHR ''.'' # number_to_string (r c1)
           = number_to_string (q c2) @ CHR ''.'' # number_to_string (r c2)"
    by (simp add: cellToHash_def hashDelimeter_def)
  from split_at_delimiter[OF number_to_string_no_dot number_to_string_no_dot this]
  show "q c1 = q c2 \<and> r c1 = r c2"
    by (auto dest: number_to_string_inj)
next
  assume "q c1 = q c2 \<and> r c1 = r c2"
  then show "cellToHash c1 = cellToHash c2" by (simp add: cellToHash_def)
qed


subsection \<open>The store\<close>

lemma update_absent: "map_of al k = None \<Longrightarrow> AList.update k v al = al @ [(k, v)]"
  by (induction al) (auto split: if_splits)

lemma length_delete_present:
  "distinct (map fst al) \<Longrightarrow> map_of al k \<noteq> None \<Longrightarrow>
   int (length (AList.delete k al)) = int (length al) - 1"
proof (induction al)
  case Nil
  then show ?case by simp
next
  case (Cons p ps)
  show ?case
  proof (cases "fst p = k")
    case True
    with Cons.prems have "k \<notin> fst ` set ps" by auto
    then have "AList.delete k ps = ps"
      by (induction ps) auto
    with True show ?thesis by simp
  next
    case False
    with Cons show ?thesis by (cases p) auto
  qed
qed

lemma list_all_delete: "list_all P al \<Longrightarrow> list_all P (AList.delete k al)"
  by (induction al) auto

lemma grid_inv_add: "grid_inv g \<Longrightarrow> grid_inv (snd (add g c))"
proof -
  assume inv: "grid_inv g"
  show ?thesis
  proof (cases "map_of (cells g) (cellToHash c) = None")
    case True
    then have "cellToHash c \<notin> fst ` set (cells g)"
      by (simp add: map_of_eq_None_iff)
    with inv True show ?thesis
      by (simp add: grid_inv_def add_def Let_def update_absent)
  next
    case False
    with inv show ?thesis by (simp add: add_def Let_def)
  qed
qed

lemma grid_inv_remove: "grid_inv g \<Longrightarrow> grid_inv (remove g c)"
proof -
  assume inv: "grid_inv g"
  show ?thesis
  proof (cases "map_of (cells g) (cellToHash c) = None")
    case True
    with inv show ?thesis by (simp add: remove_def Let_def)
  next
    case False
    with inv length_delete_present[of "cells g" "cellToHash c"] show ?thesis
      by (simp add: grid_inv_def remove_def Let_def AList.distinct_delete list_all_delete)
  qed
qed

lemma grid_inv_SqrGrid: "grid_inv (SqrGrid cfg)"
  by (simp add: grid_inv_def SqrGrid_def Let_def)

lemma grid_inv_mutate: "grid_inv g \<Longrightarrow> grid_inv (mutate g m)"
  by (cases m) (simp_all add: grid_inv_add grid_inv_remove)

lemma grid_inv_mutations: "grid_inv g \<Longrightarrow> grid_inv (mutations g ms)"
  unfolding mutations_def
  by (induction ms arbitrary: g) (simp_all add: grid_inv_mutate)

lemma traverse_count_from:
  "foldl (\<lambda>acc kc. acc + 1) (k::int) al = k + int (length al)"
  by (induction al arbitrary: k) simp_all

lemma traverse_count: "traverse g (\<lambda>n c. n + 1) (0::int) = int (length (cells g))"
  by (simp add: traverse_def traverse_count_from)

text \<open>
  C1.  Starting from the empty grid that the constructor builds, after any finite run
  of \<open>add\<close> and \<open>remove\<close> calls (duplicate insertions and removals of absent cells
  included), \<open>numCells\<close> is the number of entries of the store, which is the number of
  cells that \<open>traverse\<close> visits.
\<close>

theorem numCells_counts_traversed_cells:
  fixes ms :: "'u mutation list"
  shows "(let g = mutations (SqrGrid cfg :: ('u, 'e) SqrGrid) ms
          in numCells g = int (length (cells g)) \<and>
             numCells g = traverse g (\<lambda>n c. n + 1) (0::int))"
proof -
  have "grid_inv (mutations (SqrGrid cfg :: ('u, 'e) SqrGrid) ms)"
    by (rule grid_inv_mutations) (rule grid_inv_SqrGrid)
  then show ?thesis
    by (simp add: grid_inv_def traverse_count Let_def)
qed

subsection \<open>Rounding to a double\<close>

lemma ilog2_bounds: "0 < n \<Longrightarrow> 2 ^ ilog2 n \<le> n \<and> n < 2 ^ Suc (ilog2 n)"
proof (induction n rule: ilog2.induct)
  case (1 n)
  show ?case
  proof (cases "n < 2")
    case True
    with "1.prems" have "n = 1" by simp
    then show ?thesis by (simp add: ilog2.simps)
  next
    case False
    then have pos: "0 < n div 2" by simp
    from "1.IH" [OF False pos] have lo: "2 ^ ilog2 (n div 2) \<le> n div 2"
      and hi: "n div 2 < 2 ^ Suc (ilog2 (n div 2))" by simp_all
    have e: "ilog2 n = Suc (ilog2 (n div 2))"
      using False by (subst ilog2.simps) simp
    from lo have "2 * 2 ^ ilog2 (n div 2) \<le> n" by linarith
    moreover from hi have "n < 2 * 2 ^ Suc (ilog2 (n div 2))" by linarith
    ultimately show ?thesis by (simp add: e)
  qed
qed

lemma ilog2_bounds_real:
  assumes "0 < n"
  shows "(2::real) ^ ilog2 n \<le> of_int n" and "of_int n + 1 \<le> (2::real) ^ Suc (ilog2 n)"
proof -
  from ilog2_bounds [OF assms] have "2 ^ ilog2 n \<le> n" and "n + 1 \<le> 2 ^ Suc (ilog2 n)"
    by simp_all
  then have "real_of_int (2 ^ ilog2 n) \<le> real_of_int n"
    and "real_of_int (n + 1) \<le> real_of_int (2 ^ Suc (ilog2 n))"
    by (simp_all only: of_int_le_iff)
  then show "(2::real) ^ ilog2 n \<le> of_int n" and "of_int n + 1 \<le> (2::real) ^ Suc (ilog2 n)"
    by simp_all
qed

lemma expo_bounds:
  assumes "a \<noteq> 0"
  shows "2 powi (expo a) \<le> \<bar>a\<bar>" and "\<bar>a\<bar> < 2 powi (expo a + 1)"
proof -
  have "2 powi (expo a) \<le> \<bar>a\<bar> \<and> \<bar>a\<bar> < 2 powi (expo a + 1)"
  proof (cases "1 \<le> \<bar>a\<bar>")
    case True
    define n where "n = \<lfloor>\<bar>a\<bar>\<rfloor>"
    from True have n: "0 < n" "of_int n \<le> \<bar>a\<bar>" "\<bar>a\<bar> < of_int n + 1"
      unfolding n_def by linarith+
    from ilog2_bounds_real [OF n(1)] n(2,3)
    have "2 ^ ilog2 n \<le> \<bar>a\<bar>" "\<bar>a\<bar> < 2 ^ Suc (ilog2 n)"
      by linarith+
    moreover have "expo a = int (ilog2 n)" using True by (simp add: expo_def n_def)
    moreover have "(2::real) powi (int (ilog2 n) + 1) = 2 ^ Suc (ilog2 n)"
      by (simp add: power_int_add)
    ultimately show ?thesis by simp
  next
    case False
    define b where "b = 1 / \<bar>a\<bar>"
    define n where "n = \<lceil>b\<rceil>"
    define k where "k = Suc (ilog2 (n - 1))"
    from False assms have b1: "1 < b" by (simp add: b_def)
    then have n2: "2 \<le> n" unfolding n_def by linarith
    have nb: "b \<le> of_int n" "of_int n - 1 < b" unfolding n_def by linarith+
    from n2 have "0 < n - 1" by simp
    from ilog2_bounds_real [OF this]
    have "(2::real) ^ ilog2 (n - 1) \<le> of_int n - 1" "of_int n \<le> (2::real) ^ k"
      by (simp_all add: k_def)
    with nb have lo: "(2::real) ^ ilog2 (n - 1) < b" and hi: "b \<le> 2 ^ k"
      by linarith+
    have ek: "expo a = - int k" using False by (simp add: expo_def k_def n_def b_def)
    have a: "\<bar>a\<bar> = 1 / b" using assms by (simp add: b_def)
    from hi b1 have "1 / 2 ^ k \<le> 1 / b" by (simp add: frac_le)
    moreover from lo have "1 / b < 1 / 2 ^ ilog2 (n - 1)"
      by (simp add: frac_less2)
    moreover have "2 powi (- int k) = 1 / (2::real) ^ k" by (simp add: power_int_minus_divide)
    moreover have "2 powi (- int k + 1) = 1 / (2::real) ^ ilog2 (n - 1)"
      by (simp add: k_def power_int_minus_divide)
    ultimately show ?thesis by (simp add: ek a)
  qed
  then show "2 powi (expo a) \<le> \<bar>a\<bar>" and "\<bar>a\<bar> < 2 powi (expo a + 1)" by simp_all
qed

lemma pow2_less_D: "(2::real) powi m < 2 powi n \<Longrightarrow> m < n"
proof (rule ccontr)
  assume l: "(2::real) powi m < 2 powi n" and "\<not> m < n"
  then have "n \<le> m" by simp
  then have "(2::real) powi n \<le> 2 powi m" by (rule power_int_increasing) simp
  with l show False by linarith
qed

lemma expo_unique:
  assumes "2 powi e \<le> \<bar>a\<bar>" and "\<bar>a\<bar> < 2 powi (e + 1)"
  shows "expo a = e"
proof -
  have pos: "(0::real) < 2 powi e" by simp
  with assms(1) have "0 < \<bar>a\<bar>" by linarith
  then have a0: "a \<noteq> 0" by simp
  from expo_bounds [OF a0] assms
  have l: "(2::real) powi e < 2 powi (expo a + 1)" and u: "(2::real) powi (expo a) < 2 powi (e + 1)"
    by linarith+
  from l have "e < expo a + 1" by (rule pow2_less_D)
  moreover from u have "expo a < e + 1" by (rule pow2_less_D)
  ultimately show ?thesis by simp
qed

lemma round_even_error: "\<bar>of_int (round_even a) - a\<bar> \<le> 1 / 2"
  unfolding round_even_def Let_def by (auto simp: abs_le_iff)

lemma round_even_of_int: "round_even (of_int m) = m"
  by (simp add: round_even_def)


lemma fl_error:
  assumes a0: "a \<noteq> 0" and hi: "\<bar>a\<bar> < 2 powi 1023"
  shows "\<exists>b. fl a = Fin b \<and> \<bar>b - a\<bar> \<le> 2 powi (max (expo a) (- 1022) - 52) / 2"
proof -
  define e where "e = max (expo a) (- 1022)"
  define u :: real where "u = 2 powi (e - 52)"
  define b where "b = of_int (round_even (a / u)) * u"
  have u0: "0 < u" by (simp add: u_def)
  from expo_bounds(1) [OF a0] hi have "(2::real) powi (expo a) < 2 powi 1023" by linarith
  then have "expo a < 1023" by (rule pow2_less_D)
  then have "e - 52 \<le> 970" by (simp add: e_def)
  then have "u \<le> 2 powi 970" unfolding u_def by (rule power_int_increasing) simp
  have "b - a = (of_int (round_even (a / u)) - a / u) * u"
    using u0 by (simp add: b_def algebra_simps)
  then have "\<bar>b - a\<bar> = \<bar>of_int (round_even (a / u)) - a / u\<bar> * u"
    using u0 by (simp add: abs_mult)
  also have "\<dots> \<le> (1 / 2) * u"
    using round_even_error [of "a / u"] u0 by (intro mult_right_mono) simp_all
  finally have err: "\<bar>b - a\<bar> \<le> u / 2" by simp
  have "(2::real) powi 1023 + 2 powi 970 / 2 < 2 powi 1024" by simp
  with err hi \<open>u \<le> 2 powi 970\<close> have "\<bar>b\<bar> < 2 powi 1024" by linarith
  then have "fl a = Fin b"
    using a0 by (simp add: fl_def Let_def e_def [symmetric] u_def [symmetric] b_def [symmetric])
  with err show ?thesis by (auto simp: u_def e_def)
qed

lemma fl_normal:
  assumes lo: "2 powi (- 1022) \<le> \<bar>a\<bar>" and hi: "\<bar>a\<bar> < 2 powi 1023"
  shows "\<exists>b. fl a = Fin b \<and> \<bar>b - a\<bar> \<le> \<bar>a\<bar> / 2 ^ 53"
proof -
  have "(0::real) < 2 powi (- 1022)" by simp
  with lo have "0 < \<bar>a\<bar>" by linarith
  then have a0: "a \<noteq> 0" by simp
  from lo expo_bounds(2) [OF a0] have "(2::real) powi (- 1022) < 2 powi (expo a + 1)" by linarith
  then have "- 1022 < expo a + 1" by (rule pow2_less_D)
  then have m: "max (expo a) (- 1022) = expo a" by simp
  have "(2::real) powi (expo a - 52) / 2 = 2 powi (expo a) / 2 ^ 53"
    by (simp add: power_int_diff)
  also have "\<dots> \<le> \<bar>a\<bar> / 2 ^ 53"
    using expo_bounds(1) [OF a0] by (simp add: divide_right_mono)
  finally have "(2::real) powi (expo a - 52) / 2 \<le> \<bar>a\<bar> / 2 ^ 53" .
  with fl_error [OF a0 hi] show ?thesis unfolding m by fastforce
qed

lemma fl_subnormal_exact:
  assumes a0: "a \<noteq> 0" and hi: "\<bar>a\<bar> < 2 powi (- 1022)" and m: "a = of_int m * 2 powi (- 1074)"
  shows "fl a = Fin a"
proof -
  from expo_bounds(1) [OF a0] hi have "(2::real) powi (expo a) < 2 powi (- 1022)" by linarith
  then have "expo a < - 1022" by (rule pow2_less_D)
  then have e: "max (expo a) (- 1022) - 52 = - 1074" by simp
  have q: "a / 2 powi (- 1074) = of_int m" by (simp add: m)
  have "(2::real) powi (- 1022) \<le> 2 powi 1024" by (rule power_int_increasing) simp_all
  with hi have "\<not> 2 powi 1024 \<le> \<bar>a\<bar>" by linarith
  then show ?thesis
    using a0 unfolding fl_def Let_def e q round_even_of_int m [symmetric] by simp
qed

lemma double_multiple:
  assumes "fl c = Fin a"
  shows "\<exists>k. a = of_int k * 2 powi (- 1074)"
proof (cases "c = 0")
  case True
  with assms have "a = of_int 0 * 2 powi (- 1074)" by (simp add: fl_def)
  then show ?thesis by blast
next
  case False
  define e where "e = max (expo c) (- 1022)"
  define n where "n = round_even (c / 2 powi (e - 52))"
  from assms False have a: "a = of_int n * 2 powi (e - 52)"
    by (simp add: fl_def Let_def e_def [symmetric] n_def [symmetric] split: if_splits)
  have "0 \<le> e + 1022" by (simp add: e_def)
  then have "(2::real) powi (e + 1022) = of_int (2 ^ nat (e + 1022))"
    by (simp add: power_int_def)
  moreover have "(2::real) powi ((e + 1022) + (- 1074)) = 2 powi (e + 1022) * 2 powi (- 1074)"
    by (rule power_int_add) simp
  then have "(2::real) powi (e - 52) = 2 powi (e + 1022) * 2 powi (- 1074)"
    by (simp only: add.commute [of "e + 1022"] add.assoc [symmetric]) (simp only: diff_conv_add_uminus ac_simps, simp)
  ultimately have "a = of_int (n * 2 ^ nat (e + 1022)) * 2 powi (- 1074)"
    using a by simp
  then show ?thesis by blast
qed

lemma fl_product:
  assumes d: "fl b0 = Fin b" and hi: "\<bar>of_int n * b\<bar> < 2 powi 1023"
  shows "\<exists>c. fl (of_int n * b) = Fin c \<and> \<bar>c - of_int n * b\<bar> \<le> \<bar>of_int n * b\<bar> / 2 ^ 53"
proof (cases "of_int n * b = 0")
  case True
  then show ?thesis by (simp add: fl_def)
next
  case False
  show ?thesis
  proof (cases "2 powi (- 1022) \<le> \<bar>of_int n * b\<bar>")
    case True
    from fl_normal [OF True hi] show ?thesis .
  next
    case False
    then have small: "\<bar>of_int n * b\<bar> < 2 powi (- 1022)" by simp
    from double_multiple [OF d] obtain k where "b = of_int k * 2 powi (- 1074)" by blast
    then have "of_int n * b = of_int (n * k) * 2 powi (- 1074)" by simp
    from fl_subnormal_exact [OF \<open>of_int n * b \<noteq> 0\<close> small this] show ?thesis by simp
  qed
qed

lemma fl_0: "fl 0 = Fin 0"
  by (simp add: fl_def)

lemma fl_int:
  assumes "\<bar>n\<bar> < 2 ^ 53"
  shows "fl (of_int n) = Fin (of_int n)"
proof (cases "n = 0")
  case True
  then show ?thesis by (simp add: fl_0)
next
  case False
  define a :: real where "a = of_int n"
  define e where "e = expo a"
  from False have a0: "a \<noteq> 0" by (simp add: a_def)
  from False have "1 \<le> \<bar>n\<bar>" by linarith
  then have "real_of_int 1 \<le> real_of_int \<bar>n\<bar>" by (simp only: of_int_le_iff)
  then have lo: "1 \<le> \<bar>a\<bar>" by (simp add: a_def)
  from assms have "real_of_int \<bar>n\<bar> < real_of_int (2 ^ 53)" by (simp only: of_int_less_iff)
  then have hi: "\<bar>a\<bar> < 2 powi 53" by (simp add: a_def)
  from expo_bounds(1) [OF a0] hi have "(2::real) powi e < 2 powi 53" unfolding e_def by linarith
  then have e_hi: "e < 53" by (rule pow2_less_D)
  have "(2::real) powi 0 \<le> \<bar>a\<bar>" using lo by simp
  with expo_bounds(2) [OF a0] have "(2::real) powi 0 < 2 powi (e + 1)" unfolding e_def by linarith
  then have "0 < e + 1" by (rule pow2_less_D)
  then have e_lo: "0 \<le> e" by simp
  then have m: "max (expo a) (- 1022) = e" by (simp add: e_def)
  define k where "k = nat (52 - e)"
  have u: "(2::real) powi (e - 52) = 1 / 2 ^ k"
  proof -
    have "e - 52 = - int k" using e_hi by (simp add: k_def)
    then show ?thesis by (simp add: power_int_minus_divide)
  qed
  have quot: "a / 2 powi (e - 52) = of_int (n * 2 ^ k)"
    by (simp add: u a_def)
  have prod: "of_int (n * 2 ^ k) * (2::real) powi (e - 52) = a"
    by (simp add: u a_def)
  have "(2::real) powi 53 \<le> 2 powi 1024" by (rule power_int_increasing) simp_all
  with hi have "\<not> 2 powi 1024 \<le> \<bar>a\<bar>" by linarith
  then have "fl a = Fin a"
    using a0 unfolding fl_def Let_def m quot round_even_of_int prod by simp
  then show ?thesis by (simp only: a_def)
qed

lemma fl_numeral: "(numeral k :: int) < 2 ^ 53 \<Longrightarrow> fl (numeral k) = Fin (numeral k)"
  using fl_int [of "numeral k"] by simp

lemma fl_neg_numeral:
  "(numeral k :: int) < 2 ^ 53 \<Longrightarrow> fl (- numeral k) = Fin (- numeral k)"
  using fl_int [of "- numeral k"] by simp

text \<open>
  The round trip of one coordinate: an integer below \<open>2\<^sup>5\<^sup>1\<close> in magnitude, multiplied by
  a non-zero double and divided by it again, without overflow.  Each of the two
  operations is off by at most one part in \<open>2\<^sup>5\<^sup>3\<close>, which leaves the quotient within
  \<open>1/2\<close> of the integer.
\<close>

lemma round_trip_exact_operand:
  assumes d: "fl b0 = Fin b" and b0: "b \<noteq> 0" and n: "\<bar>n\<bar> < 2 ^ 51"
    and hi: "\<bar>of_int n * b\<bar> < 2 powi 1023"
  shows "Math_round (number_div (number_mul (Fin (of_int n)) (Fin b)) (Fin b)) = Some n"
proof (cases "n = 0")
  case True
  with b0 show ?thesis by (simp add: fl_def)
next
  case False
  define w :: real where "w = \<bar>of_int n\<bar>"
  from False n have "1 \<le> \<bar>n\<bar>" "\<bar>n\<bar> \<le> 2 ^ 51 - 1" by linarith+
  then have "real_of_int 1 \<le> real_of_int \<bar>n\<bar>" "real_of_int \<bar>n\<bar> \<le> real_of_int (2 ^ 51 - 1)"
    by (simp_all only: of_int_le_iff)
  then have w: "1 \<le> w" "w \<le> 2 ^ 51 - 1"
    by (simp_all add: w_def)
  from fl_product [OF d hi] obtain c where c: "fl (of_int n * b) = Fin c"
    and ce: "\<bar>c - of_int n * b\<bar> \<le> \<bar>of_int n * b\<bar> / 2 ^ 53" by blast
  define z where "z = c / b"
  have "z - of_int n = (c - of_int n * b) / b" using b0 by (simp add: z_def field_simps)
  then have "\<bar>z - of_int n\<bar> = \<bar>c - of_int n * b\<bar> / \<bar>b\<bar>" by simp
  also have "\<dots> \<le> (\<bar>of_int n * b\<bar> / 2 ^ 53) / \<bar>b\<bar>"
    using ce by (rule divide_right_mono) simp
  also have "\<dots> = w / 2 ^ 53" using b0 by (simp add: w_def abs_mult)
  finally have ze: "\<bar>z - of_int n\<bar> \<le> w / 2 ^ 53" .
  have tri: "\<bar>z\<bar> \<le> w + \<bar>z - of_int n\<bar>" "w \<le> \<bar>z\<bar> + \<bar>z - of_int n\<bar>"
    unfolding w_def by linarith+
  have p: "(2::real) powi (- 1022) \<le> 1 / 2" "(2::real) ^ 52 \<le> 2 powi 1023"
    by (simp_all add: power_int_minus_divide)
  have zlo: "2 powi (- 1022) \<le> \<bar>z\<bar>" using w ze tri p(1) by simp
  have zhi: "\<bar>z\<bar> < 2 powi 1023" using w ze tri p(2) by simp
  from fl_normal [OF zlo zhi] obtain y where y: "fl z = Fin y"
    and ye: "\<bar>y - z\<bar> \<le> \<bar>z\<bar> / 2 ^ 53" by blast
  have t2: "\<bar>y - of_int n\<bar> \<le> \<bar>y - z\<bar> + \<bar>z - of_int n\<bar>" by linarith
  from ye have ye': "\<bar>y - z\<bar> * 9007199254740992 \<le> \<bar>z\<bar>" by simp
  from ze have ze': "\<bar>z - of_int n\<bar> * 9007199254740992 \<le> w" by simp
  from w(2) have w': "w \<le> 2251799813685247" by simp
  have lin: "A * 9007199254740992 \<le> C \<Longrightarrow> B * 9007199254740992 \<le> W \<Longrightarrow> C \<le> W + B \<Longrightarrow>
     W \<le> 2251799813685247 \<Longrightarrow> D \<le> A + B \<Longrightarrow> D < 1 / 2" for A B C D W :: real
    by linarith
  have "\<bar>y - of_int n\<bar> < 1 / 2" by (rule lin [OF ye' ze' tri(1) w' t2])
  then have "round y = n" by (intro round_unique) linarith+
  then show ?thesis using c y b0 by (simp add: z_def)
qed

lemma round_trip_coordinate:
  assumes d: "fl b0 = Fin b" and b0: "b \<noteq> 0" and n: "\<bar>n\<bar> < 2 ^ 51"
    and hi: "\<bar>of_int n * b\<bar> < 2 powi 1023"
  shows "Math_round (number_div (number_mul (fl (of_int n)) (Fin b)) (Fin b)) = Some n"
proof -
  from n have "\<bar>n\<bar> < 2 ^ 53" by simp
  then have "fl (of_int n) = Fin (of_int n)" by (rule fl_int)
  with round_trip_exact_operand [OF d b0 n hi] show ?thesis by (simp only:)
qed


lemma fl_eval:
  assumes "2 powi e \<le> \<bar>a\<bar>" and "\<bar>a\<bar> < 2 powi (e + 1)" and "- 1022 \<le> e"
  shows "fl a =
    (if (2::real) powi 1024 \<le> \<bar>of_int (round_even (a / 2 powi (e - 52))) * 2 powi (e - 52)\<bar>
     then Infinite else Fin (of_int (round_even (a / 2 powi (e - 52))) * 2 powi (e - 52)))"
proof -
  have "(0::real) < 2 powi e" by simp
  with assms(1) have "0 < \<bar>a\<bar>" by linarith
  then have "a \<noteq> 0" by simp
  moreover have "max (expo a) (- 1022) = e"
    using expo_unique [OF assms(1,2)] assms(3) by simp
  ultimately show ?thesis by (simp add: fl_def Let_def)
qed

text \<open>The doubles that the examples below go through.\<close>

lemma fl_at_product_1: "a = 9007199254740991 * 20 \<Longrightarrow> fl a = Fin 180143985094819808"
  using fl_eval [of 57 "9007199254740991 * 20"] by (simp add: round_even_def)

lemma fl_at_quotient_1: "a = 180143985094819808 / 20 \<Longrightarrow> fl a = Fin 9007199254740990"
proof -
  assume a: "a = 180143985094819808 / 20"
  have "fl (180143985094819808 / 20) = Fin 9007199254740990"
    using fl_eval [of 52 "180143985094819808 / 20"] by (simp add: round_even_def)
  then show ?thesis by (simp only: a)
qed

lemma fl_at_product_2: "a = 3648422959943678 * 20 \<Longrightarrow> fl a = Fin 72968459198873568"
  using fl_eval [of 56 "3648422959943678 * 20"] by (simp add: round_even_def)

lemma fl_at_quotient_2: "a = 72968459198873568 / 20 \<Longrightarrow> fl a = Fin (7296845919887357 / 2)"
proof -
  assume a: "a = 72968459198873568 / 20"
  have "fl (72968459198873568 / 20) = Fin (7296845919887357 / 2)"
    using fl_eval [of 51 "72968459198873568 / 20"] by (simp add: round_even_def)
  then show ?thesis by (simp only: a)
qed

lemma fl_at_power: "a = 2 ^ 1000 \<Longrightarrow> fl a = Fin (2 ^ 1000)"
  using fl_eval [of 1000 "2 ^ 1000"] by (simp add: round_even_def)

lemma fl_at_big: "a = 2 ^ 1000 * 2 \<Longrightarrow> fl a = Fin (2 ^ 1001)"
  using fl_eval [of 1001 "2 ^ 1000 * 2"] by (simp add: round_even_def)

lemma fl_at_overflow: "a = 2 ^ 30 * 2 ^ 1001 \<Longrightarrow> fl a = Infinite"
  using fl_eval [of 1031 "2 ^ 30 * 2 ^ 1001"] by (simp add: round_even_def)

lemmas hash_eval =
  cellToHash_def number_to_string_def nat_to_string.simps digit_char_def hashDelimeter_def

subsection \<open>Claims about the store and the codec\<close>

text \<open>
  C5.  The key that \<open>cellToHash\<close> produces depends on \<open>(q, r)\<close> only: two cells have the
  same key exactly when they have the same \<open>q\<close> and the same \<open>r\<close>, so cells with different
  integer pairs get different keys, and changing \<open>s\<close>, \<open>h\<close> or \<open>walkable\<close> does not change
  the key.
\<close>

theorem cellToHash_identity:
  "(cellToHash c1 = cellToHash c2 \<longleftrightarrow> (q c1, r c1) = (q c2, r c2)) \<and>
   cellToHash (c\<lparr>s := sa, h := ha, walkable := wa\<rparr>) = cellToHash c"
  by (simp add: cellToHash_eq_iff)

text \<open>
  C4.  When the key of the cell is already in the store, \<open>add\<close> returns nothing and
  leaves the grid as it is (the stored cell, the store and \<open>numCells\<close>).  When the key is
  free, \<open>add\<close> returns the cell, appends it under its key, and \<open>numCells\<close> goes up by one.
\<close>

theorem add_occupied_or_free:
  "(map_of (cells g) (cellToHash c) \<noteq> None \<longrightarrow> add g c = (None, g)) \<and>
   (map_of (cells g) (cellToHash c) = None \<longrightarrow>
      fst (add g c) = Some c \<and>
      cells (snd (add g c)) = cells g @ [(cellToHash c, c)] \<and>
      map_of (cells (snd (add g c))) = (map_of (cells g))(cellToHash c \<mapsto> c) \<and>
      numCells (snd (add g c)) = numCells g + 1)"
proof (cases "map_of (cells g) (cellToHash c) = None")
  case True
  have "cells (snd (add g c)) = AList.update (cellToHash c) c (cells g)"
    using True by (simp add: add_def Let_def)
  moreover have "fst (add g c) = Some c" "numCells (snd (add g c)) = numCells g + 1"
    using True by (simp_all add: add_def Let_def)
  ultimately show ?thesis
    using True by (simp add: update_absent [symmetric] AList.update_conv')
next
  case False
  then show ?thesis by (auto simp: add_def Let_def)
qed

text \<open>
  The spec's example: a grid holding one cell at \<open>(0, 0)\<close> of height 5; inserting a new
  cell at \<open>(0, 0)\<close> of height 9 leaves the stored height at 5 and \<open>numCells\<close> at 1.
\<close>

theorem add_occupied_or_free_witness:
  "(let g0 = SqrGrid None :: (unit, unit) SqrGrid;
        g1 = snd (add g0 (cell_at 0 0 5))
    in map_of (cells g0) (cellToHash (cell_at 0 0 5)) = None \<and>
       fst (add g0 (cell_at 0 0 5)) = Some (cell_at 0 0 5) \<and>
       numCells g1 = 1 \<and>
       map_of (cells g1) (cellToHash (cell_at 0 0 9)) \<noteq> None \<and>
       add g1 (cell_at 0 0 9) = (None, g1) \<and>
       map_option h (map_of (cells (snd (add g1 (cell_at 0 0 9)))) ''0.0'') = Some 5 \<and>
       numCells (snd (add g1 (cell_at 0 0 9))) = 1)"
  using add_occupied_or_free [of "SqrGrid None :: (unit, unit) SqrGrid" "cell_at 0 0 5"]
        add_occupied_or_free [of "snd (add (SqrGrid None :: (unit, unit) SqrGrid) (cell_at 0 0 5))"
                                 "cell_at 0 0 9"]
  by (simp add: Let_def SqrGrid_def cell_at_def hash_eval)

text \<open>
  C2, as stated, fails at the default cell size 10, for integers that a double holds
  exactly.  For the coordinate \<open>2\<^sup>5\<^sup>3 - 1\<close> the product with 20 is rounded to a multiple
  of 32 and the quotient comes back one less; for the coordinate \<open>3648422959943678\<close>
  the quotient is rounded to the coordinate plus \<open>1/2\<close>, which \<open>Math.round\<close> takes to
  one more.  At cell size \<open>2\<^sup>1\<^sup>0\<^sup>0\<^sup>0\<close> the product for the coordinate \<open>2\<^sup>3\<^sup>0\<close> overflows to
  an infinity, and no integer comes back.
\<close>

theorem pixelToCell_cellToPixel_not_exact:
  "pixelToCell (SqrGrid None :: (unit, unit) SqrGrid)
     (cellToPixel (SqrGrid None :: (unit, unit) SqrGrid) (cell_at 9007199254740991 0 0))
     = (Some 9007199254740990, Some 0) \<and>
   pixelToCell (SqrGrid None :: (unit, unit) SqrGrid)
     (cellToPixel (SqrGrid None :: (unit, unit) SqrGrid) (cell_at 0 3648422959943678 0))
     = (Some 0, Some 3648422959943679) \<and>
   pixelToCell (SqrGrid (Some (2 ^ 1000)) :: (unit, unit) SqrGrid)
     (cellToPixel (SqrGrid (Some (2 ^ 1000)) :: (unit, unit) SqrGrid) (cell_at (2 ^ 30) 0 0))
     = (None, Some 0)"
  by (simp add: pixelToCell_def cellToPixel_def Let_def SqrGrid_def cell_at_def fl_0 fl_numeral
        fl_at_product_1 fl_at_quotient_1 fl_at_product_2 fl_at_quotient_2 fl_at_power
        fl_at_big fl_at_overflow round_def)

text \<open>
  C2, amended.  On a grid whose \<open>_fullCellSize\<close>, the double \<open>cellSize * 2\<close>, is finite and
  not 0, for every cell whose integer coordinates \<open>q\<close> and \<open>r\<close> are below \<open>2\<^sup>5\<^sup>1\<close> in
  magnitude and whose products \<open>q * _fullCellSize\<close> and \<open>r * _fullCellSize\<close> are below
  \<open>2\<^sup>1\<^sup>0\<^sup>2\<^sup>3\<close> in magnitude, \<open>pixelToCell\<close> of \<open>cellToPixel\<close> of the cell is exactly the
  cell's \<open>(q, r)\<close>.
\<close>

theorem pixelToCell_cellToPixel:
  assumes "fullCellSize g = number_mul (fl (cellSize g)) (Fin 2)"
    and "fullCellSize g = Fin F" and "F \<noteq> 0"
    and "\<bar>q c\<bar> < 2 ^ 51" and "\<bar>r c\<bar> < 2 ^ 51"
    and "\<bar>of_int (q c) * F\<bar> < 2 ^ 1023" and "\<bar>of_int (r c) * F\<bar> < 2 ^ 1023"
  shows "pixelToCell g (cellToPixel g c) = (Some (q c), Some (r c))"
proof -
  from assms(1,2) obtain b0 where d: "fl b0 = Fin F"
    by (cases "fl (cellSize g)") (auto split: if_splits)
  from assms(6,7) have hi: "\<bar>of_int (q c) * F\<bar> < 2 powi 1023" "\<bar>of_int (r c) * F\<bar> < 2 powi 1023"
    by simp_all
  have "Math_round (number_div (number_mul (fl (of_int (q c))) (Fin F)) (Fin F)) = Some (q c)"
    by (rule round_trip_coordinate [OF d assms(3,4) hi(1)])
  moreover
  have "Math_round (number_div (number_mul (fl (of_int (r c))) (Fin F)) (Fin F)) = Some (r c)"
    by (rule round_trip_coordinate [OF d assms(3,5) hi(2)])
  ultimately show ?thesis
    by (simp add: pixelToCell_def cellToPixel_def Let_def assms(2)
          del: number_mul.simps number_div.simps)
qed

theorem pixelToCell_cellToPixel_witness:
  "(let g = SqrGrid (Some 10) :: (unit, unit) SqrGrid; c = cell_at (- 3) 7 2 in
    fullCellSize g = number_mul (fl (cellSize g)) (Fin 2) \<and>
    fullCellSize g = Fin 20 \<and> (20::real) \<noteq> 0 \<and>
    \<bar>q c\<bar> < 2 ^ 51 \<and> \<bar>r c\<bar> < 2 ^ 51 \<and>
    \<bar>of_int (q c) * (20::real)\<bar> < 2 ^ 1023 \<and> \<bar>of_int (r c) * (20::real)\<bar> < 2 ^ 1023 \<and>
    pixelToCell g (cellToPixel g c) = (Some (- 3), Some 7))"
  using pixelToCell_cellToPixel [of "SqrGrid (Some 10) :: (unit, unit) SqrGrid" 20 "cell_at (- 3) 7 2"]
  by (simp add: Let_def SqrGrid_def cell_at_def fl_numeral)

subsection \<open>Neighbours\<close>






lemma grid3x3_cells:
  "cells grid3x3 =
     [(''-1.-1'', cell_at (- 1) (- 1) 1), (''-1.0'', cell_at (- 1) 0 1), (''-1.1'', cell_at (- 1) 1 1),
      (''0.-1'', cell_at 0 (- 1) 1), (''0.0'', cell_at 0 0 1), (''0.1'', cell_at 0 1 1),
      (''1.-1'', cell_at 1 (- 1) 1), (''1.0'', cell_at 1 0 1), (''1.1'', cell_at 1 1 1)]"
  by (simp add: grid3x3_def mutations_def add_def Let_def SqrGrid_def cell_at_def hash_eval)

lemma grid3x3_numCells: "numCells grid3x3 = 9"
  by (simp add: grid3x3_def mutations_def add_def Let_def SqrGrid_def cell_at_def hash_eval)

lemma grid3x3_inv: "grid_inv grid3x3"
  by (simp add: grid_inv_def grid3x3_cells grid3x3_numCells cell_at_def hash_eval)



subsection \<open>Random cell\<close>

lemma getRandomCell_loop_eq:
  "i \<le> xi \<Longrightarrow>
   getRandomCell_loop al i xi at_c =
     (if xi < i + int (length al) then Some (snd (al ! nat (xi - i)))
      else if al = [] then at_c else Some (snd (last al)))"
proof (induction al arbitrary: i at_c)
  case Nil
  then show ?case by simp
next
  case (Cons kc rest)
  show ?case
  proof (cases "i = xi")
    case True
    then show ?thesis by simp
  next
    case False
    with Cons.prems have lt: "i + 1 \<le> xi" by simp
    have n: "nat (xi - i) = Suc (nat (xi - (i + 1)))" using lt by simp
    show ?thesis
      using False Cons.IH [OF lt, of "Some (snd kc)"]
      by (simp add: n add.assoc)
  qed
qed

text \<open>
  C10.  On a well-formed grid with a non-empty store, for every index from 0 to
  \<open>numCells\<close> inclusive, \<open>getRandomCell\<close> returns a cell of the store: the cell at that
  position of the enumeration when the index is below \<open>numCells\<close>, and the last cell
  enumerated when the index is \<open>numCells\<close>.
\<close>

theorem getRandomCell_nonempty:
  "grid_inv g \<Longrightarrow> cells g \<noteq> [] \<Longrightarrow> 0 \<le> xi \<Longrightarrow> xi \<le> numCells g \<Longrightarrow>
   getRandomCell g xi =
     Inr (Some (if xi < numCells g then snd (cells g ! nat xi) else snd (last (cells g)))) \<and>
   (\<exists>c \<in> snd ` set (cells g). getRandomCell g xi = Inr (Some c))"
proof -
  assume inv: "grid_inv g" and ne: "cells g \<noteq> []" and lo: "0 \<le> xi" and hi: "xi \<le> numCells g"
  from inv have n: "numCells g = int (length (cells g))" by (simp add: grid_inv_def)
  have eq: "getRandomCell g xi =
     Inr (Some (if xi < numCells g then snd (cells g ! nat xi) else snd (last (cells g))))"
    using ne n getRandomCell_loop_eq [OF lo, of "cells g" None]
    by (simp add: getRandomCell_def)
  have "(if xi < numCells g then snd (cells g ! nat xi) else snd (last (cells g)))
          \<in> snd ` set (cells g)"
  proof (cases "xi < numCells g")
    case True
    with lo n have "nat xi < length (cells g)" by simp
    then have "cells g ! nat xi \<in> set (cells g)" by (rule nth_mem)
    with True show ?thesis by simp
  next
    case False
    with ne show ?thesis by simp
  qed
  with eq show ?thesis by auto
qed

theorem getRandomCell_nonempty_witness:
  "grid_inv grid3x3 \<and> cells grid3x3 \<noteq> [] \<and> (0::int) \<le> 4 \<and> 4 \<le> numCells grid3x3 \<and>
   9 \<le> numCells grid3x3 \<and>
   getRandomCell grid3x3 4 = Inr (Some (cell_at 0 0 1)) \<and>
   getRandomCell grid3x3 9 = Inr (Some (cell_at 1 1 1))"
  using getRandomCell_nonempty [OF grid3x3_inv, of 4]
        getRandomCell_nonempty [OF grid3x3_inv, of 9]
        grid3x3_inv
  by (simp add: grid3x3_cells grid3x3_numCells)

text \<open>
  C9, as stated, fails: on the empty grid of the constructor, with the only index that
  can be drawn from \<open>[0, 0]\<close>, \<open>getRandomCell\<close> does not raise; it returns \<open>undefined\<close>.
\<close>

theorem getRandomCell_empty_returns:
  "\<not> raises (getRandomCell (SqrGrid None :: (unit, unit) SqrGrid) 0) \<and>
   getRandomCell (SqrGrid None :: (unit, unit) SqrGrid) 0 = Inr None"
  by (simp add: getRandomCell_def SqrGrid_def raises_def)

text \<open>
  C9, amended.  On an empty store \<open>getRandomCell\<close> raises nothing and returns
  \<open>undefined\<close>, whatever index is drawn.
\<close>

theorem getRandomCell_empty:
  "cells g = [] \<Longrightarrow> \<not> raises (getRandomCell g xi) \<and> getRandomCell g xi = Inr None"
  by (simp add: getRandomCell_def raises_def)

theorem getRandomCell_empty_witness:
  "cells (SqrGrid (Some 10) :: (unit, unit) SqrGrid) = [] \<and>
   getRandomCell (SqrGrid (Some 10) :: (unit, unit) SqrGrid) 0 = Inr None"
  using getRandomCell_empty [of "SqrGrid (Some 10) :: (unit, unit) SqrGrid" 0]
  by (simp add: SqrGrid_def)

subsection \<open>Runs of insertions\<close>

lemma add_each_Nil: "add_each g [] = g"
  by (simp add: add_each_def)

lemma add_each_Cons: "add_each g (c # cs) = add_each (snd (add g c)) cs"
  by (simp add: add_each_def)

lemma add_each_append: "add_each g (cs @ ds) = add_each (add_each g cs) ds"
  by (simp add: add_each_def)

lemma cellToHash_coords: "cellToHash a = cellToHash b \<longleftrightarrow> coords a = coords b"
  by (simp add: cellToHash_eq_iff coords_def)

lemma map_of_snoc_None:
  "map_of (al @ [(k, v)]) k' = None \<longleftrightarrow> map_of al k' = None \<and> k' \<noteq> k"
  by (auto simp: map_add_def split: option.splits)

lemma add_each_eq:
  "add_each g cs =
     g\<lparr>cells := cells g @ map (\<lambda>c. (cellToHash c, c)) (fresh_cells g cs),
       numCells := numCells g + int (length (fresh_cells g cs))\<rparr>"
proof (induction cs arbitrary: g)
  case Nil
  then show ?case by (simp add: add_each_Nil fresh_cells_def)
next
  case (Cons c cs)
  show ?case
  proof (cases "map_of (cells g) (cellToHash c) = None")
    case False
    then have "snd (add g c) = g" by (auto simp: add_def Let_def)
    moreover have "fresh_cells g (c # cs) = fresh_cells g cs"
      using False by (auto simp: fresh_cells_def)
    ultimately show ?thesis
      using Cons.IH [of g] by (simp add: add_each_Cons)
  next
    case True
    let ?g' = "snd (add g c)"
    have g': "?g' = g\<lparr>cells := cells g @ [(cellToHash c, c)], numCells := numCells g + 1\<rparr>"
      using True by (simp add: add_def Let_def update_absent)
    have f: "filter (\<lambda>a. map_of (cells ?g') (cellToHash a) = None) cs
           = filter (\<lambda>a. coords a \<noteq> coords c) (filter (\<lambda>a. map_of (cells g) (cellToHash a) = None) cs)"
      by (simp add: g' map_of_snoc_None cellToHash_coords) (metis (lifting))
    have "fresh_cells g (c # cs) = c # fresh_cells ?g' cs"
      using True by (simp add: fresh_cells_def f)
    with Cons.IH [of ?g'] show ?thesis
      by (simp add: add_each_Cons g')
  qed
qed

lemma first_by_coords_distinct:
  "distinct (map coords cs) \<Longrightarrow> first_by_coords cs = cs"
proof (induction cs)
  case Nil
  then show ?case by simp
next
  case (Cons c cs)
  from Cons.prems have "coords c \<notin> coords ` set cs" by simp
  then have "\<forall>a \<in> set cs. coords a \<noteq> coords c" by (metis imageI)
  then have "filter (\<lambda>a. coords a \<noteq> coords c) cs = cs"
    by (simp add: filter_id_conv)
  with Cons show ?case by simp
qed

lemma first_by_coords_map:
  "(\<And>a. coords (f a) = coords a) \<Longrightarrow> first_by_coords (map f cs) = map f (first_by_coords cs)"
proof (induction cs rule: first_by_coords.induct)
  case 1
  then show ?case by simp
next
  case (2 c cs)
  then show ?case by (simp add: filter_map comp_def)
qed

subsection \<open>Generation\<close>

lemma generate_y_eq:
  "generate_y g d half xi yi =
     add_each g (map (\<lambda>yj. new_Cell d (Some xi) (Some (yj + 1)) None) [yi..half - 1])"
proof (induction g d half xi yi rule: generate_y.induct)
  case (1 g d half xi yi)
  show ?case
  proof (cases "yi < half")
    case True
    then have "[yi..half - 1] = yi # [yi + 1..half - 1]"
      by (simp add: upto_rec1)
    with True "1.IH" show ?thesis
      by (subst generate_y.simps) (simp add: add_each_Cons)
  next
    case False
    then show ?thesis
      by (subst generate_y.simps) (simp add: add_each_Nil)
  qed
qed

lemma generate_x_eq:
  "generate_x g d half xi = add_each g (generated_cells d half xi)"
proof (induction g d half xi rule: generate_x.induct)
  case (1 g d half xi)
  show ?case
  proof (cases "xi < half")
    case True
    then have "[xi..half - 1] = xi # [xi + 1..half - 1]"
      by (simp add: upto_rec1)
    with True "1.IH" show ?thesis
      by (subst generate_x.simps) (simp add: generated_cells_def add_each_append generate_y_eq)
  next
    case False
    then show ?thesis
      by (subst generate_x.simps) (simp add: generated_cells_def add_each_Nil)
  qed
qed

lemma coords_generated_cells:
  "map coords (generated_cells d half xi)
     = List.product [xi..half - 1] (map (\<lambda>yj. yj + 1) [- half..half - 1])"
proof -
  have "map coords (concat (map (\<lambda>xj. map (\<lambda>yj. new_Cell d (Some xj) (Some (yj + 1)) None) ys) xs))
          = List.product xs (map (\<lambda>yj. yj + 1) ys)" for xs ys :: "int list"
    by (induction xs) (simp_all add: coords_def new_Cell_def comp_def)
  then show ?thesis by (simp add: generated_cells_def)
qed

lemma map_Suc_upto: "map (\<lambda>yj. yj + 1) [a..b] = [a + 1..b + 1]"
proof (induction a b rule: upto.induct)
  case (1 i j)
  show ?case
  proof (cases "i \<le> j")
    case True
    with "1.IH" show ?thesis
      by (simp add: upto_rec1 [of i j] upto_rec1 [of "i + 1" "j + 1"])
  next
    case False
    then show ?thesis by simp
  qed
qed

lemma generate_cells:
  "cells g = [] \<Longrightarrow>
   map (\<lambda>kc. coords (snd kc)) (cells (generate g d config_size))
     = (let half = \<lceil>(case config_size of None \<Rightarrow> size_grid g | Some v \<Rightarrow> v) / 2\<rceil>
        in List.product [- half..half - 1] [- half + 1..half])"
proof -
  assume e: "cells g = []"
  define half where "half = \<lceil>(case config_size of None \<Rightarrow> size_grid g | Some v \<Rightarrow> v) / 2\<rceil>"
  define g1 where "g1 = g\<lparr>size_grid := (case config_size of None \<Rightarrow> size_grid g | Some v \<Rightarrow> v)\<rparr>"
  have gen: "generate g d config_size = add_each g1 (generated_cells d half (- half))"
    by (simp add: generate_def Let_def generate_x_eq half_def g1_def)
  have c: "map coords (generated_cells d half (- half)) = List.product [- half..half - 1] [- half + 1..half]"
    by (simp add: coords_generated_cells map_Suc_upto)
  then have "distinct (map coords (generated_cells d half (- half)))"
    by (simp add: distinct_product)
  then have f: "fresh_cells g1 (generated_cells d half (- half)) = generated_cells d half (- half)"
    using e by (simp add: fresh_cells_def g1_def first_by_coords_distinct)
  have "map (\<lambda>kc. coords (snd kc)) (cells (generate g d config_size))
          = map coords (generated_cells d half (- half))"
    unfolding gen add_each_eq [of g1] f using e by (simp add: g1_def comp_def)
  with c show ?thesis by (simp add: half_def Let_def)
qed


lemma generate_eq:
  "generate g d config_size =
     (let half = \<lceil>(case config_size of None \<Rightarrow> size_grid g | Some v \<Rightarrow> v) / 2\<rceil>
      in add_each (g\<lparr>size_grid := (case config_size of None \<Rightarrow> size_grid g | Some v \<Rightarrow> v)\<rparr>)
           (generated_cells d half (- half)))"
  by (simp add: generate_def Let_def generate_x_eq)

lemma grid_inv_add_each: "grid_inv g \<Longrightarrow> grid_inv (add_each g cs)"
  by (induction cs arbitrary: g) (simp_all add: add_each_Nil add_each_Cons grid_inv_add)

lemma grid_inv_generate: "grid_inv g \<Longrightarrow> grid_inv (generate g d config_size)"
proof -
  assume "grid_inv g"
  then have "grid_inv (g\<lparr>size_grid := sz\<rparr>)" for sz
    by (simp add: grid_inv_def)
  then show ?thesis
    by (simp add: generate_eq Let_def grid_inv_add_each)
qed

lemma autogenerated_add_each: "autogenerated (add_each g cs) = autogenerated g"
  by (simp add: add_each_eq)

lemma ceiling_half_5: "\<lceil>(5::real) / 2\<rceil> = 3"
  by (simp add: ceiling_eq_iff)

text \<open>
  C7, as stated, fails: on a new grid, \<open>generate({size: 5})\<close> stores 36 cells, among them
  one at \<open>(2, 3)\<close>, which is outside \<open>[-3,2) \<times> [-2,3)\<close>; and \<open>autogenerated\<close> is still
  false afterwards (only \<open>generateTiles\<close> sets it).
\<close>

theorem generate_size_5_not_5x5:
  "set (map (\<lambda>kc. coords (snd kc))
         (cells (generate (SqrGrid None :: (unit, unit) SqrGrid) fresh0 (Some 5))))
     \<noteq> {- 3..<2} \<times> {- 2..<3} \<and>
   (2, 3) \<in> set (map (\<lambda>kc. coords (snd kc))
         (cells (generate (SqrGrid None :: (unit, unit) SqrGrid) fresh0 (Some 5)))) \<and>
   length (cells (generate (SqrGrid None :: (unit, unit) SqrGrid) fresh0 (Some 5))) = 36 \<and>
   \<not> autogenerated (generate (SqrGrid None :: (unit, unit) SqrGrid) fresh0 (Some 5))"
proof -
  let ?g = "SqrGrid None :: (unit, unit) SqrGrid"
  have e: "cells ?g = []" by (simp add: SqrGrid_def)
  have m: "(2, 3) \<in> set (map (\<lambda>kc. coords (snd kc)) (cells (generate ?g fresh0 (Some 5))))"
    unfolding generate_cells [OF e] by (simp add: ceiling_half_5 Let_def)
  have "length (map (\<lambda>kc. coords (snd kc)) (cells (generate ?g fresh0 (Some 5)))) = 36"
    unfolding generate_cells [OF e] by (simp add: ceiling_half_5 Let_def)
  then have l: "length (cells (generate ?g fresh0 (Some 5))) = 36" by simp
  have a: "\<not> autogenerated (generate ?g fresh0 (Some 5))"
    by (simp add: generate_eq Let_def autogenerated_add_each SqrGrid_def)
  have "(2, 3) \<notin> {- 3..<(2::int)} \<times> {- 2..<(3::int)}" by simp
  with m have "set (map (\<lambda>kc. coords (snd kc)) (cells (generate ?g fresh0 (Some 5))))
                 \<noteq> {- 3..<2} \<times> {- 2..<3}"
    by metis
  with m l a show ?thesis by simp
qed


text \<open>
  C7, amended.  On an empty grid, \<open>generate({size})\<close> stores cells whose \<open>(q, r)\<close> pairs
  are exactly the product of \<open>[-half, half)\<close> for \<open>q\<close> and \<open>[-half + 1, half + 1)\<close> for \<open>r\<close>,
  where \<open>half = ceil(size / 2)\<close>, with no pair twice, and leaves \<open>autogenerated\<close> as it
  was.  For \<open>size = 5\<close> the pairs are exactly \<open>[-3,3) \<times> [-2,4)\<close>, 36 cells.
\<close>

theorem generate_fills_square:
  "cells g = [] \<Longrightarrow>
   (let half = \<lceil>(case config_size of None \<Rightarrow> size_grid g | Some v \<Rightarrow> v) / 2\<rceil>;
        pairs = map (\<lambda>kc. coords (snd kc)) (cells (generate g d config_size))
    in set pairs = {- half..<half} \<times> {- half + 1..<half + 1} \<and> distinct pairs \<and>
       autogenerated (generate g d config_size) = autogenerated g) \<and>
   set (map (\<lambda>kc. coords (snd kc)) (cells (generate g d (Some 5)))) = {- 3..<3} \<times> {- 2..<4} \<and>
   length (cells (generate g d (Some 5))) = 36"
proof -
  assume e: "cells g = []"
  have ivl: "{a..b - 1} = {a..<b}" for a b :: int by auto
  have ivl': "{a..b} = {a..<b + 1}" for a b :: int by auto
  have gen: "set (map (\<lambda>kc. coords (snd kc)) (cells (generate g d cs))) =
               {- \<lceil>(case cs of None \<Rightarrow> size_grid g | Some v \<Rightarrow> v) / 2\<rceil>..<\<lceil>(case cs of None \<Rightarrow> size_grid g | Some v \<Rightarrow> v) / 2\<rceil>}
               \<times> {- \<lceil>(case cs of None \<Rightarrow> size_grid g | Some v \<Rightarrow> v) / 2\<rceil> + 1..<\<lceil>(case cs of None \<Rightarrow> size_grid g | Some v \<Rightarrow> v) / 2\<rceil> + 1}" for cs
    unfolding generate_cells [OF e] Let_def set_product set_upto ivl
    by (simp only: ivl')
  have dist: "distinct (map (\<lambda>kc. coords (snd kc)) (cells (generate g d config_size)))"
    unfolding generate_cells [OF e] Let_def by (simp add: distinct_product)
  have auto_same: "autogenerated (generate g d config_size) = autogenerated g"
    by (simp add: generate_eq Let_def autogenerated_add_each)
  have five: "set (map (\<lambda>kc. coords (snd kc)) (cells (generate g d (Some 5)))) = {- 3..<3} \<times> {- 2..<4}"
    using gen [of "Some 5"] by (simp add: ceiling_half_5)
  have "length (map (\<lambda>kc. coords (snd kc)) (cells (generate g d (Some 5)))) = 36"
    unfolding generate_cells [OF e] by (simp add: ceiling_half_5 Let_def)
  then have len: "length (cells (generate g d (Some 5))) = 36" by simp
  show ?thesis
    using gen [of config_size] dist auto_same five len by (simp add: Let_def)
qed

theorem generate_fills_square_witness:
  "cells (SqrGrid None :: (unit, unit) SqrGrid) = [] \<and>
   set (map (\<lambda>kc. coords (snd kc)) (cells (generate (SqrGrid None :: (unit, unit) SqrGrid) fresh0 (Some 4))))
     = {- 2..<2} \<times> {- 1..<3} \<and>
   set (map (\<lambda>kc. coords (snd kc)) (cells (generate (SqrGrid None :: (unit, unit) SqrGrid) fresh0 (Some 5))))
     = {- 3..<3} \<times> {- 2..<4} \<and>
   \<not> autogenerated (generate (SqrGrid None :: (unit, unit) SqrGrid) fresh0 (Some 4))"
  using generate_fills_square [of "SqrGrid None :: (unit, unit) SqrGrid" "Some 4" fresh0]
  by (simp add: SqrGrid_def Let_def)

subsection \<open>Loading and saving\<close>

lemma fromJSON_loop_eq:
  "fromJSON_loop g d recs = add_each g (map (Cell_copy (new_Cell d None None None)) recs)"
  by (induction recs arbitrary: g) (simp_all add: add_each_Nil add_each_Cons)

lemma coords_Cell_copy: "coords (Cell_copy c a) = coords a"
  by (simp add: coords_def Cell_copy_def)

lemma persisted_Cell_copy: "persisted (Cell_copy c a) = a"
  by (simp add: persisted_def Cell_copy_def)

lemma cellToHash_Cell_copy_persisted: "cellToHash (Cell_copy c (persisted a)) = cellToHash a"
  by (simp add: cellToHash_def persisted_def Cell_copy_def)

lemma fromJSON_cells:
  "json_cells js = Some recs \<Longrightarrow>
   fromJSON g d js =
     (Inr (),
      \<lparr>size_grid = json_size js, cellSize = json_cellSize js,
       cells = map (\<lambda>c. (cellToHash c, c))
                 (map (Cell_copy (new_Cell d None None None)) (first_by_coords recs)),
       numCells = int (length (first_by_coords recs)),
       extrudeSettings = json_extrudeSettings js,
       autogenerated = json_autogenerated js,
       fullCellSize = number_mul (fl (json_cellSize js)) (Fin 2)\<rparr>)"
proof -
  assume c: "json_cells js = Some recs"
  define g1 where "g1 = g\<lparr>cells := [], numCells := 0, size_grid := json_size js,
                 cellSize := json_cellSize js,
                 fullCellSize := number_mul (fl (json_cellSize js)) (Fin 2),
                 extrudeSettings := json_extrudeSettings js,
                 autogenerated := json_autogenerated js\<rparr>"
  have f: "fresh_cells g1 (map (Cell_copy (new_Cell d None None None)) recs)
             = map (Cell_copy (new_Cell d None None None)) (first_by_coords recs)"
    by (simp add: fresh_cells_def g1_def first_by_coords_map coords_Cell_copy)
  have "fromJSON g d js = (Inr (), add_each g1 (map (Cell_copy (new_Cell d None None None)) recs))"
    using c by (simp add: fromJSON_def Let_def fromJSON_loop_eq g1_def)
  also have "add_each g1 (map (Cell_copy (new_Cell d None None None)) recs) =
     \<lparr>size_grid = json_size js, cellSize = json_cellSize js,
       cells = map (\<lambda>c. (cellToHash c, c))
                 (map (Cell_copy (new_Cell d None None None)) (first_by_coords recs)),
       numCells = int (length (first_by_coords recs)),
       extrudeSettings = json_extrudeSettings js,
       autogenerated = json_autogenerated js,
       fullCellSize = number_mul (fl (json_cellSize js)) (Fin 2)\<rparr>"
    unfolding add_each_eq f by (cases g) (simp add: g1_def)
  finally show ?thesis .
qed

lemma grid_inv_fromJSON: "grid_inv (snd (fromJSON g d js))"
proof (cases "json_cells js")
  case None
  then show ?thesis by (simp add: fromJSON_def Let_def grid_inv_def)
next
  case (Some recs)
  have "grid_inv (g\<lparr>cells := [], numCells := 0, size_grid := a, cellSize := b,
                      fullCellSize := c, extrudeSettings := e, autogenerated := f\<rparr>)" for a b c e f
    by (simp add: grid_inv_def)
  with Some show ?thesis
    by (simp add: fromJSON_def Let_def fromJSON_loop_eq grid_inv_add_each)
qed

text \<open>
  \<open>_fullCellSize\<close> is the double \<open>cellSize * 2\<close> after the constructor and after \<open>fromJSON\<close>, and
  the methods that change the store keep both fields.
\<close>

lemma fullCellSize_SqrGrid:
  "fullCellSize (SqrGrid cfg) = number_mul (fl (cellSize (SqrGrid cfg))) (Fin 2)"
  by (simp add: SqrGrid_def Let_def)

lemma fullCellSize_add:
  "fullCellSize (snd (add g c)) = fullCellSize g \<and> cellSize (snd (add g c)) = cellSize g"
  by (simp add: add_def Let_def)

lemma fullCellSize_remove:
  "fullCellSize (remove g c) = fullCellSize g \<and> cellSize (remove g c) = cellSize g"
  by (simp add: remove_def Let_def)

lemma fullCellSize_generate:
  "fullCellSize (generate g d config_size) = fullCellSize g \<and>
   cellSize (generate g d config_size) = cellSize g"
  by (simp add: generate_eq Let_def add_each_eq)

lemma fullCellSize_fromJSON:
  "fullCellSize (snd (fromJSON g d js)) = number_mul (fl (cellSize (snd (fromJSON g d js)))) (Fin 2)"
  by (cases "json_cells js")
     (simp_all add: fromJSON_def Let_def fromJSON_loop_eq add_each_eq)

lemma distinct_coords_of_keys:
  "list_all (\<lambda>kc. fst kc = cellToHash (snd kc)) al \<Longrightarrow> distinct (map fst al) \<Longrightarrow>
   distinct (map (\<lambda>kc. coords (snd kc)) al)"
proof (induction al)
  case Nil
  then show ?case by simp
next
  case (Cons kc al)
  have "coords (snd kc) \<notin> (\<lambda>kc. coords (snd kc)) ` set al"
  proof
    assume "coords (snd kc) \<in> (\<lambda>kc. coords (snd kc)) ` set al"
    then obtain kc' where m: "kc' \<in> set al" and e: "coords (snd kc) = coords (snd kc')"
      by auto
    from e have "cellToHash (snd kc) = cellToHash (snd kc')"
      by (simp add: cellToHash_coords)
    moreover from Cons.prems m have "fst kc' = cellToHash (snd kc')" "fst kc = cellToHash (snd kc)"
      by (auto simp: list_all_iff)
    ultimately have "fst kc = fst kc'" by simp
    with m Cons.prems show False by force
  qed
  with Cons show ?case by simp
qed

lemma grid4x4_inv: "grid_inv grid4x4"
  unfolding grid4x4_def by (rule grid_inv_generate) (rule grid_inv_SqrGrid)

lemma grid4x4_cellSize: "cellSize grid4x4 = 10"
  by (simp add: grid4x4_def generate_eq Let_def add_each_eq SqrGrid_def)

lemma grid4x4_numCells: "numCells grid4x4 = 16"
proof -
  have e: "cells (SqrGrid None :: (unit, unit) SqrGrid) = []"
    by (simp add: SqrGrid_def)
  have "map (\<lambda>kc. coords (snd kc)) (cells grid4x4) = List.product [- 2..1] [- 1..2]"
    unfolding grid4x4_def generate_cells [OF e] by (simp add: Let_def)
  then have "length (map (\<lambda>kc. coords (snd kc)) (cells grid4x4))
               = length (List.product [- 2..1] [- 1..(2::int)])"
    by (rule arg_cong)
  then have "int (length (cells grid4x4)) = 16" by simp
  with grid4x4_inv show ?thesis by (simp add: grid_inv_def)
qed

lemma grid_mixed_cells:
  "cells grid_mixed = [(''0.0'', lava_cell), (''2.-1'', door_cell)]"
  by (simp add: grid_mixed_def mutations_def add_def Let_def SqrGrid_def lava_cell_def
        door_cell_def hash_eval)

lemma grid_mixed_inv: "grid_inv grid_mixed"
  unfolding grid_mixed_def by (rule grid_inv_mutations) (rule grid_inv_SqrGrid)

lemma grid_mixed_fields: "cellSize grid_mixed = 7 \<and> numCells grid_mixed = 2"
  by (simp add: grid_mixed_def mutations_def add_def Let_def SqrGrid_def lava_cell_def
        door_cell_def hash_eval)

text \<open>
  C3.  For every well-formed grid \<open>g\<close>, loading what \<open>toJSON\<close> gives for \<open>g\<close> (into any
  grid) returns normally and yields a grid with the cell size of \<open>g\<close>, the \<open>numCells\<close> of
  \<open>g\<close>, and cells that agree with the cells of \<open>g\<close> in each of the fields \<open>q\<close>, \<open>r\<close>, \<open>s\<close>,
  \<open>h\<close>, \<open>walkable\<close> and \<open>userData\<close>, under the same keys and in the same order; on every
  rebuilt cell the scratch fields are in their zero state: cost 0, priority 0, no
  parent, not visited.  The records that \<open>toJSON\<close> writes are of type \<open>cellData\<close>, which
  has no scratch field.
\<close>

theorem fromJSON_toJSON:
  "grid_inv g \<Longrightarrow>
   fst (fromJSON g0 d (toJSON g)) = Inr () \<and>
   cellSize (snd (fromJSON g0 d (toJSON g))) = cellSize g \<and>
   numCells (snd (fromJSON g0 d (toJSON g))) = numCells g \<and>
   map (\<lambda>kc. (q (snd kc), r (snd kc), s (snd kc), h (snd kc), walkable (snd kc),
               userData (snd kc)))
       (cells (snd (fromJSON g0 d (toJSON g))))
     = map (\<lambda>kc. (q (snd kc), r (snd kc), s (snd kc), h (snd kc), walkable (snd kc),
                 userData (snd kc)))
         (cells g) \<and>
   map fst (cells (snd (fromJSON g0 d (toJSON g)))) = map fst (cells g) \<and>
   list_all (\<lambda>kc. calcCost (snd kc) = 0 \<and> priority (snd kc) = 0 \<and> parent (snd kc) = None \<and>
                  \<not> visited (snd kc))
     (cells (snd (fromJSON g0 d (toJSON g))))"
proof -
  assume inv: "grid_inv g"
  define recs where "recs = map (\<lambda>kc. persisted (snd kc)) (cells g)"
  define blank where "blank = new_Cell d None None None"
  have js: "json_cells (toJSON g) = Some recs" "json_cellSize (toJSON g) = cellSize g"
    by (simp_all add: toJSON_def recs_def)
  from inv have keys: "list_all (\<lambda>kc. fst kc = cellToHash (snd kc)) (cells g)"
    and dist: "distinct (map fst (cells g))" and n: "numCells g = int (length (cells g))"
    by (simp_all add: grid_inv_def)
  have "map coords recs = map (\<lambda>kc. coords (snd kc)) (cells g)"
    by (simp add: recs_def coords_def persisted_def)
  with distinct_coords_of_keys [OF keys dist] have "distinct (map coords recs)" by simp
  then have first: "first_by_coords recs = recs" by (rule first_by_coords_distinct)
  have k: "map (\<lambda>kc. cellToHash (snd kc)) (cells g) = map fst (cells g)"
    using keys by (induction "cells g") (auto simp: list_all_iff)
  have fields: "q (Cell_copy blank (persisted c)) = q c" "r (Cell_copy blank (persisted c)) = r c"
    "s (Cell_copy blank (persisted c)) = s c" "h (Cell_copy blank (persisted c)) = h c"
    "walkable (Cell_copy blank (persisted c)) = walkable c"
    "userData (Cell_copy blank (persisted c)) = userData c" for c
    by (simp_all add: Cell_copy_def persisted_def)
  have scratch: "calcCost (Cell_copy blank a) = 0" "priority (Cell_copy blank a) = 0"
    "parent (Cell_copy blank a) = None" "\<not> visited (Cell_copy blank a)" for a :: "'a cellData"
    by (simp_all add: Cell_copy_def blank_def new_Cell_def)
  show ?thesis
    unfolding fromJSON_cells [OF js(1)] first blank_def [symmetric]
    using n k
    by (simp add: js(2) recs_def comp_def fields scratch cellToHash_Cell_copy_persisted
          list_all_iff)
qed

text \<open>
  A grid whose two cells have their own \<open>s\<close>, \<open>h\<close>, \<open>walkable\<close> and \<open>userData\<close> and scratch
  fields in use: reloaded, it has the same six fields on each cell and the scratch
  fields cleared.  And the spec's example, the generated 4 by 4 grid.
\<close>

theorem fromJSON_toJSON_witness:
  "grid_inv grid_mixed \<and>
   fst (fromJSON grid_mixed fresh_plain (toJSON grid_mixed)) = Inr () \<and>
   cellSize (snd (fromJSON grid_mixed fresh_plain (toJSON grid_mixed))) = 7 \<and>
   numCells (snd (fromJSON grid_mixed fresh_plain (toJSON grid_mixed))) = 2 \<and>
   map (\<lambda>kc. (q (snd kc), r (snd kc), s (snd kc), h (snd kc), walkable (snd kc),
               userData (snd kc)))
       (cells (snd (fromJSON grid_mixed fresh_plain (toJSON grid_mixed))))
     = [(0, 0, 3, 5, False, ''lava''), (2, - 1, - 1, 1 / 2, True, ''door'')] \<and>
   map fst (cells (snd (fromJSON grid_mixed fresh_plain (toJSON grid_mixed))))
     = [''0.0'', ''2.-1''] \<and>
   list_all (\<lambda>kc. calcCost (snd kc) = 0 \<and> priority (snd kc) = 0 \<and> parent (snd kc) = None \<and>
                  \<not> visited (snd kc))
     (cells (snd (fromJSON grid_mixed fresh_plain (toJSON grid_mixed)))) \<and>
   \<not> list_all (\<lambda>kc. calcCost (snd kc) = 0 \<and> priority (snd kc) = 0 \<and> parent (snd kc) = None \<and>
                  \<not> visited (snd kc))
     (cells grid_mixed) \<and>
   grid_inv grid4x4 \<and>
   cellSize (snd (fromJSON grid3x3 fresh0 (toJSON grid4x4))) = 10 \<and>
   numCells (snd (fromJSON grid3x3 fresh0 (toJSON grid4x4))) = 16"
  using fromJSON_toJSON [OF grid_mixed_inv, of grid_mixed fresh_plain]
        fromJSON_toJSON [OF grid4x4_inv, of grid3x3 fresh0]
        grid_mixed_inv grid4x4_inv
  by (simp add: grid_mixed_cells grid_mixed_fields grid4x4_cellSize grid4x4_numCells
        lava_cell_def door_cell_def)

text \<open>
  C8, as stated, fails.  A record with a negative cell size and a repeated \<open>(q, r)\<close>
  pair loads without any error, and replaces the nine cells of the prior grid by one.
  A record without its \<open>cells\<close> field ends in a \<open>TypeError\<close>, raised after the store has
  been emptied and the counter reset: the prior state is not left untouched.
\<close>

theorem fromJSON_malformed_input:
  "fst (fromJSON grid3x3 fresh0 json_duplicates) = Inr () \<and>
   numCells grid3x3 = 9 \<and>
   numCells (snd (fromJSON grid3x3 fresh0 json_duplicates)) = 1 \<and>
   cellSize grid3x3 = 10 \<and>
   cellSize (snd (fromJSON grid3x3 fresh0 json_duplicates)) = - 4 \<and>
   fst (fromJSON grid3x3 fresh0 json_no_cells) = Inl TypeError \<and>
   cells grid3x3 \<noteq> [] \<and>
   cells (snd (fromJSON grid3x3 fresh0 json_no_cells)) = [] \<and>
   numCells (snd (fromJSON grid3x3 fresh0 json_no_cells)) = 0"
proof -
  have "cellSize grid3x3 = 10"
    by (simp add: grid3x3_def mutations_def add_def Let_def SqrGrid_def cell_at_def hash_eval)
  moreover have "fromJSON grid3x3 fresh0 json_duplicates =
    (Inr (), \<lparr>size_grid = 1, cellSize = - 4,
       cells = [(''0.0'', Cell_copy (new_Cell fresh0 None None None) (record_at 0 0 5))],
       numCells = 1, extrudeSettings = None, autogenerated = False,
       fullCellSize = number_mul (fl (- 4)) (Fin 2)\<rparr>)"
    by (simp add: fromJSON_def json_duplicates_def Let_def add_def record_at_def
          Cell_copy_def new_Cell_def fresh0_def hash_eval)
  moreover have "fromJSON grid3x3 fresh0 json_no_cells =
    (Inl TypeError, grid3x3\<lparr>cells := [], numCells := 0, size_grid := 1, cellSize := 10,
       fullCellSize := number_mul (fl 10) (Fin 2), extrudeSettings := None,
       autogenerated := False\<rparr>)"
    by (simp add: fromJSON_def json_no_cells_def Let_def)
  ultimately show ?thesis
    by (simp add: grid3x3_cells grid3x3_numCells)
qed

text \<open>
  C8, amended.  \<open>fromJSON\<close> validates nothing.  For every prior grid and every record whose
  \<open>cells\<close> list is present, a record with repeated \<open>(q, r)\<close> pairs or a negative cell size
  included, it returns normally; the grid afterwards does not depend on the prior grid;
  its cell size is the record's as given; its cells are, by their persisted fields, the
  first record of each \<open>(q, r)\<close> pair, later ones being skipped; and \<open>numCells\<close> is their
  number.
\<close>

theorem fromJSON_no_validation:
  "json_cells js = Some recs \<Longrightarrow>
   fst (fromJSON g d js) = Inr () \<and>
   snd (fromJSON g d js) = snd (fromJSON g2 d js) \<and>
   cellSize (snd (fromJSON g d js)) = json_cellSize js \<and>
   map (\<lambda>kc. persisted (snd kc)) (cells (snd (fromJSON g d js))) = first_by_coords recs \<and>
   numCells (snd (fromJSON g d js)) = int (length (first_by_coords recs))"
  by (simp add: fromJSON_cells comp_def persisted_Cell_copy)

theorem fromJSON_no_validation_witness:
  "json_cells json_duplicates = Some [record_at 0 0 5, record_at 0 0 9] \<and>
   fst (fromJSON grid3x3 fresh0 json_duplicates) = Inr () \<and>
   cellSize (snd (fromJSON grid3x3 fresh0 json_duplicates)) = - 4 \<and>
   map (\<lambda>kc. persisted (snd kc)) (cells (snd (fromJSON grid3x3 fresh0 json_duplicates)))
     = [record_at 0 0 5] \<and>
   numCells (snd (fromJSON grid3x3 fresh0 json_duplicates)) = 1"
  using fromJSON_no_validation [of json_duplicates "[record_at 0 0 5, record_at 0 0 9]" grid3x3 fresh0]
  by (simp add: json_duplicates_def record_at_def coords_def)

end
